theory Spec2Isabelle
  imports Main
begin

section \<open>JavaScript values\<close>

text \<open>
  The query service works on parsed JSON request bodies, typed \<open>any\<close> or by interfaces
  that are not checked at run time. A value is therefore one of the JSON shapes, plus
  \<open>undefined\<close>, which the code produces by reading absent properties and assigns to
  \<open>whereValue\<close>. An object is the list of its own enumerable properties in the order
  \<open>Object.entries\<close> lists them (keys distinct). Numbers are only tested for truthiness
  and against \<open>-1\<close>, \<open>0\<close> and \<open>1\<close>, and are otherwise passed through.
\<close>

datatype jsval =
    JUndefined
  | JNull
  | JBool bool
  | JNum int
  | JStr string
  | JArr "jsval list"
  | JObj "(string \<times> jsval) list"

text \<open>The messages of \<open>throwUnprocessableException\<close>, with the interpolated value kept as data.\<close>

datatype message =
    UnableToProcess jsval
  | TagNotLoaded string
  | TagNotSupported string
  | OnlyDescendingPopularity
  | ScansNotLoaded
  | MultipleCountries

datatype error = TypeError | UnprocessableEntityException message

text \<open>The decimal name of an array index, as \<open>Object.entries\<close> and \<open>Object.keys\<close> give it.\<close>

fun digits :: "nat \<Rightarrow> string" where
  "digits n =
     (if n < 10 then [char_of (48 + n)]
      else digits (n div 10) @ [char_of (48 + n mod 10)])"

declare digits.simps [simp del]

text \<open>\<open>if (v)\<close>, \<open>!v\<close>, \<open>v ? a : b\<close>.\<close>

fun truthy :: "jsval \<Rightarrow> bool" where
  "truthy JUndefined = False"
| "truthy JNull = False"
| "truthy (JBool b) = b"
| "truthy (JNum n) = (n \<noteq> 0)"
| "truthy (JStr s) = (s \<noteq> [])"
| "truthy (JArr xs) = True"
| "truthy (JObj kvs) = True"

text \<open>\<open>v == null\<close>.\<close>

fun isNullish :: "jsval \<Rightarrow> bool" where
  "isNullish JUndefined = True"
| "isNullish JNull = True"
| "isNullish _ = False"

text \<open>\<open>v === Object(v)\<close>: true of arrays and objects, false of primitives.\<close>

fun isObject :: "jsval \<Rightarrow> bool" where
  "isObject (JArr xs) = True"
| "isObject (JObj kvs) = True"
| "isObject _ = False"

text \<open>
  \<open>v[k]\<close> on a value that is neither \<open>null\<close> nor \<open>undefined\<close>. The service reads the
  keys \<open>$match\<close>, \<open>$group\<close>, \<open>$count\<close>, \<open>$limit\<close>, \<open>$skip\<close>, \<open>_id\<close>, \<open>$all\<close>,
  \<open>$ne\<close>, \<open>$in\<close>, \<open>$nin\<close>, \<open>length\<close>, \<open>code\<close>, \<open>countries_tags\<close> and the
  indices \<open>0\<close> and \<open>1\<close>, none of which a prototype supplies.
\<close>

fun getProp :: "jsval \<Rightarrow> string \<Rightarrow> jsval" where
  "getProp (JObj kvs) k = (case map_of kvs k of Some v \<Rightarrow> v | None \<Rightarrow> JUndefined)"
| "getProp (JArr xs) k =
     (if k = ''length'' then JNum (int (length xs))
      else case List.find (\<lambda>i. digits i = k) [0..<length xs] of
             Some i \<Rightarrow> xs ! i
           | None \<Rightarrow> JUndefined)"
| "getProp (JStr s) k =
     (if k = ''length'' then JNum (int (length s))
      else case List.find (\<lambda>i. digits i = k) [0..<length s] of
             Some i \<Rightarrow> JStr [s ! i]
           | None \<Rightarrow> JUndefined)"
| "getProp _ k = JUndefined"

text \<open>\<open>v[k]\<close>: a TypeError on \<open>null\<close> and \<open>undefined\<close>.\<close>

definition getMember :: "jsval \<Rightarrow> string \<Rightarrow> error + jsval" where
  "getMember v k = (if isNullish v then Inl TypeError else Inr (getProp v k))"

text \<open>\<open>v?.[k]\<close>.\<close>

definition getOptional :: "jsval \<Rightarrow> string \<Rightarrow> jsval" where
  "getOptional v k = (if isNullish v then JUndefined else getProp v k)"

text \<open>\<open>Object.entries(v)\<close>.\<close>

fun entries :: "jsval \<Rightarrow> error + (string \<times> jsval) list" where
  "entries JUndefined = Inl TypeError"
| "entries JNull = Inl TypeError"
| "entries (JBool b) = Inr []"
| "entries (JNum n) = Inr []"
| "entries (JStr s) = Inr (zip (map digits [0..<length s]) (map (\<lambda>c. JStr [c]) s))"
| "entries (JArr xs) = Inr (zip (map digits [0..<length xs]) xs)"
| "entries (JObj kvs) = Inr kvs"

text \<open>\<open>Object.keys(v)\<close> of an array or object.\<close>

fun objectKeys :: "jsval \<Rightarrow> string list" where
  "objectKeys (JObj kvs) = map fst kvs"
| "objectKeys (JArr xs) = map digits [0..<length xs]"
| "objectKeys _ = []"

text \<open>\<open>for (const x of v)\<close>: arrays and strings are iterable, anything else is a TypeError.\<close>

fun iterate :: "jsval \<Rightarrow> error + jsval list" where
  "iterate (JArr xs) = Inr xs"
| "iterate (JStr s) = Inr (map (\<lambda>c. JStr [c]) s)"
| "iterate _ = Inl TypeError"

text \<open>
  The loops of \<open>parseFilter\<close> push onto one list and stop at the first exception:
  the first error in order, or all the pushed clauses in order.
\<close>

fun concat_all :: "(error + 'a list) list \<Rightarrow> error + 'a list" where
  "concat_all [] = Inr []"
| "concat_all (r # rs) =
     (case r of
        Inl e \<Rightarrow> Inl e
      | Inr xs \<Rightarrow> (case concat_all rs of Inl e \<Rightarrow> Inl e | Inr ys \<Rightarrow> Inr (xs @ ys)))"

section \<open>Filter normalisation: \<open>parseFilter\<close>\<close>

lemma digits_no_dollar: "CHR ''$'' \<notin> set (digits n)"
proof (induction n rule: digits.induct)
  case (1 n)
  have d: "char_of (48 + k) \<noteq> CHR ''$''" if "k < 10" for k :: nat
  proof
    assume "char_of (48 + k) = CHR ''$''"
    then have "of_char (char_of (48 + k) :: char) = (of_char (CHR ''$'') :: nat)" by simp
    with that show False by simp
  qed
  show ?case
  proof (cases "n < 10")
    case True
    then show ?thesis using d [of n] by (subst digits.simps) simp
  next
    case False
    then show ?thesis using 1 d [of "n mod 10"] by (subst digits.simps) simp
  qed
qed

lemma digits_not_and: "digits n \<noteq> ''$and''" "''$and'' \<noteq> digits n"
proof -
  show "digits n \<noteq> ''$and''" using digits_no_dollar [of n] by auto
  then show "''$and'' \<noteq> digits n" by (rule not_sym)
qed

lemma entries_and_object:
  assumes "entries m = Inr es" and "(''$and'', v) \<in> set es"
  shows "m = JObj es"
  using assms by (cases m) (auto simp: set_zip digits_not_and)

lemma size_entry_value: "(k, v) \<in> set kvs \<Longrightarrow> size v < size (JObj kvs)"
proof -
  assume "(k, v) \<in> set kvs"
  then have "size_prod (\<lambda>x. 0) size (k, v) \<le> size_list (size_prod (\<lambda>x. 0) size) kvs"
    by (rule size_list_estimation') simp
  then show ?thesis by simp
qed

lemma size_iterate: "iterate v = Inr subs \<Longrightarrow> sub \<in> set subs \<Longrightarrow> size sub \<le> size v"
proof (cases v)
  case (JArr xs)
  assume "iterate v = Inr subs" and "sub \<in> set subs"
  with JArr have "sub \<in> set xs" by simp
  then have "size sub \<le> size_list size xs" by (rule size_list_estimation') simp
  with JArr show ?thesis by simp
qed auto

text \<open>
  \<open>parseFilter(matches)\<close>, lines 88 to 116. The outer loop runs over
  \<open>Object.entries(matches)\<close>; a \<open>$and\<close> entry spreads the clauses of each of its
  sub-filters, an entry whose value has a truthy \<open>$all\<close> gives one clause per listed
  value, and any other entry is pushed as it is. \<open>filter[1]['$all']\<close> is a TypeError
  when the value is \<open>null\<close>.
\<close>

function parseFilter :: "jsval \<Rightarrow> error + (string \<times> jsval) list" where
  "parseFilter matches =
     (case entries matches of
        Inl e \<Rightarrow> Inl e
      | Inr es \<Rightarrow> concat_all (map (\<lambda>(k, v).
            if k = ''$and'' then
              (case iterate v of
                 Inl e \<Rightarrow> Inl e
               | Inr subs \<Rightarrow> concat_all (map parseFilter subs))
            else
              (case getMember v ''$all'' of
                 Inl e \<Rightarrow> Inl e
               | Inr all \<Rightarrow>
                   if truthy all then
                     (case iterate all of
                        Inl e \<Rightarrow> Inl e
                      | Inr vals \<Rightarrow> Inr (map (\<lambda>val. (k, val)) vals))
                   else Inr [(k, v)])) es))"
  by pat_completeness auto
termination
proof (relation "measure size")
  fix matches es and x :: "string \<times> jsval" and k v subs sub
  assume "entries matches = Inr es" "x \<in> set es" "(k, v) = x" "k = ''$and''"
    "iterate v = Inr subs" "sub \<in> set subs"
  then have m: "matches = JObj es" and mem: "(k, v) \<in> set es"
    using entries_and_object by auto
  have "size sub \<le> size v"
    using \<open>iterate v = Inr subs\<close> \<open>sub \<in> set subs\<close> by (rule size_iterate)
  also have "\<dots> < size matches" using size_entry_value [OF mem] m by simp
  finally show "(sub, matches) \<in> measure size" by simp
qed simp

declare parseFilter.simps [simp del]

section \<open>Tag resolution: \<open>getEntityAndColumn\<close>\<close>

text \<open>
  An entity is the \<open>Product\<close> class or one of the classes that
  \<open>ProductTagMap.MAPPED_TAGS\<close> lists, \<open>ProductCountry\<close> among them.
\<close>

datatype entity = Product | Entity string

definition ProductCountry :: entity where
  "ProductCountry = Entity ''ProductCountry''"

text \<open>
  \<open>MAPPED_FIELDS\<close>, \<open>ProductTagMap.MAPPED_TAGS\<close> and \<open>ProductCountry.TAG\<close> are
  declared in the entity files and the loaded tags are what
  \<open>tagService.getLoadedTags()\<close> answers; the service only reads them, so they are
  parameters here.
\<close>

record env =
  MAPPED_FIELDS :: "string list"
  MAPPED_TAGS :: "(string \<times> entity) list"
  loadedTags :: "string list"
  ProductCountry_TAG :: string

text \<open>
  \<open>getEntityAndColumn(tag)\<close>, lines 423 to 445. \<open>MAPPED_TAGS[tag]\<close> is read as
  a lookup among the entries of the table.
\<close>

definition getEntityAndColumn :: "env \<Rightarrow> string \<Rightarrow> error + (entity \<times> string)" where
  "getEntityAndColumn env tag =
     (if tag = [] \<or> tag \<in> set (MAPPED_FIELDS env) then Inr (Product, tag)
      else case map_of (MAPPED_TAGS env) tag of
             Some entity \<Rightarrow>
               if tag \<notin> set (loadedTags env)
               then Inl (UnprocessableEntityException (TagNotLoaded tag))
               else Inr (entity, ''value'')
           | None \<Rightarrow> Inl (UnprocessableEntityException (TagNotSupported tag)))"

text \<open>\<open>productId(entity)\<close>, lines 207 to 209.\<close>

definition productId :: "entity \<Rightarrow> string" where
  "productId entity = (if entity = Product then ''id'' else ''product_id'')"

section \<open>Clause compilation\<close>

text \<open>
  The loop over the listed values, lines 164 to 181 and 383 to 400. The state is the
  pair of \<open>not\<close> and \<open>whereValue\<close>. A value that is \<open>null\<close> or has length 0 ends the
  loop (\<open>break\<close>): on the Product table \<open>whereValue\<close> becomes \<open>null\<close>, on any other
  table \<open>not\<close> is flipped and \<open>whereValue\<close> becomes \<open>undefined\<close>. An object or array
  met before that throws.
\<close>

fun scanValues :: "entity \<Rightarrow> jsval list \<Rightarrow> bool \<times> jsval \<Rightarrow> error + (bool \<times> jsval)" where
  "scanValues matchEntity [] (not_flag, whereValue) = Inr (not_flag, whereValue)"
| "scanValues matchEntity (val # rest) (not_flag, whereValue) =
     (if isNullish val \<or> getProp val ''length'' = JNum 0 then
        (if matchEntity = Product then Inr (not_flag, JNull)
         else Inr (\<not> not_flag, JUndefined))
      else if isObject val then
        Inl (UnprocessableEntityException (UnableToProcess whereValue))
      else scanValues matchEntity rest (not_flag, whereValue))"

text \<open>
  Lines 135 to 182 of \<open>addMatches\<close>, repeated word for word as lines 354 to 401 of
  \<open>getFilterSql\<close>: from the clause's value to the final \<open>not\<close> and \<open>whereValue\<close>.
  \<open>not\<close> first holds the value of \<open>$ne\<close> and later a boolean; only its truthiness is
  ever read, so it is a boolean here.
\<close>

definition whereOperand :: "entity \<Rightarrow> jsval \<Rightarrow> error + (bool \<times> jsval)" where
  "whereOperand matchEntity matchValue =
     (let ne = getOptional matchValue ''$ne'';
          not_flag = truthy ne;
          whereValue = (if not_flag then ne else matchValue)
      in if isObject whereValue then
           (case objectKeys whereValue of
              [operator] \<Rightarrow>
                if operator \<noteq> ''$in'' \<and> operator \<noteq> ''$nin''
                then Inl (UnprocessableEntityException (UnableToProcess whereValue))
                else
                  (case getMember (getProp whereValue operator) ''length'' of
                     Inl e \<Rightarrow> Inl e
                   | Inr len \<Rightarrow>
                       if \<not> truthy len
                       then Inl (UnprocessableEntityException (UnableToProcess whereValue))
                       else
                         (let (whereValue', not_flag') =
                                (if operator = ''$nin''
                                 then (JObj [(''$in'', getProp whereValue ''$nin'')], \<not> not_flag)
                                 else (whereValue, not_flag))
                          in case iterate (getProp whereValue' ''$in'') of
                               Inl e \<Rightarrow> Inl e
                             | Inr vals \<Rightarrow> scanValues matchEntity vals (not_flag', whereValue')))
            | _ \<Rightarrow> Inl (UnprocessableEntityException (UnableToProcess whereValue)))
         else Inr (not_flag, whereValue))"

text \<open>
  The \<open>where\<close> object of the sub-query, lines 188 to 194: keys are columns of the alias
  \<open>pt2\<close>, a value is a reference to a column of the outer alias \<open>pt\<close> or a plain
  value. Assigning a key that is already there replaces its value.
\<close>

datatype column_ref = Column string string

datatype where_value = Ref column_ref | Val jsval

fun assign :: "(column_ref \<times> where_value) list \<Rightarrow> column_ref \<Rightarrow> where_value
    \<Rightarrow> (column_ref \<times> where_value) list" where
  "assign [] k v = [(k, v)]"
| "assign ((k', v') # ps) k v = (if k' = k then (k, v) # ps else (k', v') # assign ps k v)"

record subquery =
  sub_entity :: entity
  sub_where :: "(column_ref \<times> where_value) list"

text \<open>
  A condition of the outer query: the string that \<open>obsoleteWhere\<close> returns, or
  \<open>[NOT ]EXISTS (sub-query)\<close>.
\<close>

datatype cond = Raw string | Exists bool subquery

datatype selection =
    SelectGroupCount string
  | SelectDistinct string
  | SelectCount
  | SelectAll

record qb =
  qb_entity :: entity
  qb_select :: selection
  qb_where :: "cond list"
  qb_groupBy :: "string option"
  qb_orderBy :: "(string \<times> string) option"
  qb_limit :: "jsval option"
  qb_offset :: "jsval option"

definition createQueryBuilder :: "entity \<Rightarrow> qb" where
  "createQueryBuilder entity =
     \<lparr>qb_entity = entity, qb_select = SelectAll, qb_where = [], qb_groupBy = None,
      qb_orderBy = None, qb_limit = None, qb_offset = None\<rparr>"

definition andWhere :: "qb \<Rightarrow> cond \<Rightarrow> qb" where
  "andWhere q c = q\<lparr>qb_where := qb_where q @ [c]\<rparr>"

text \<open>
  One line of \<open>whereLog\<close>: the tag, \<open>!=\<close> or \<open>==\<close>, and the value.
\<close>

type_synonym log_line = "string \<times> bool \<times> jsval"

text \<open>The body of the loop of \<open>addMatches\<close>, lines 132 to 201.\<close>

definition matchCondition :: "env \<Rightarrow> entity \<Rightarrow> string \<times> jsval \<Rightarrow> error + (cond \<times> log_line)"
  where
  "matchCondition env parentEntity clause =
     (case clause of (matchTag, matchValue) \<Rightarrow>
      case getEntityAndColumn env matchTag of
        Inl e \<Rightarrow> Inl e
      | Inr (matchEntity, matchColumn) \<Rightarrow>
          (case whereOperand matchEntity matchValue of
             Inl e \<Rightarrow> Inl e
           | Inr (not_flag, whereValue) \<Rightarrow>
               (let where0 = [(Column ''pt2'' (productId matchEntity),
                               Ref (Column ''pt'' (productId parentEntity)))];
                    where1 = (if whereValue \<noteq> JUndefined
                              then assign where0 (Column ''pt2'' matchColumn) (Val whereValue)
                              else where0)
                in Inr (Exists not_flag \<lparr>sub_entity = matchEntity, sub_where = where1\<rparr>,
                        (matchTag, not_flag, whereValue)))))"

text \<open>\<open>addMatches(filters, qb, parentEntity)\<close>, lines 125 to 204.\<close>

fun addMatches :: "env \<Rightarrow> (string \<times> jsval) list \<Rightarrow> qb \<Rightarrow> entity
    \<Rightarrow> error + (qb \<times> log_line list)" where
  "addMatches env [] q parentEntity = Inr (q, [])"
| "addMatches env (clause # filters) q parentEntity =
     (case matchCondition env parentEntity clause of
        Inl e \<Rightarrow> Inl e
      | Inr (c, line) \<Rightarrow>
          (case addMatches env filters (andWhere q c) parentEntity of
             Inl e \<Rightarrow> Inl e
           | Inr (q', whereLog) \<Rightarrow> Inr (q', line # whereLog)))"

text \<open>
  \<open>getFilterSql(filters, parentEntity)\<close>, lines 348 to 420. Each clause appends
  \<open>AND [NOT] EXISTS (SELECT * FROM table pt2 WHERE pt2.id = pt.id [AND pt2.column = value])\<close>
  to the fragment; the value is a parameter of the statement.
\<close>

record sql_exists =
  sql_not :: bool
  sql_entity :: entity
  sql_join :: "column_ref \<times> column_ref"
  sql_equals :: "(column_ref \<times> jsval) option"

definition filterSqlClause :: "env \<Rightarrow> entity \<Rightarrow> string \<times> jsval \<Rightarrow> error + sql_exists" where
  "filterSqlClause env parentEntity clause =
     (case clause of (matchTag, matchValue) \<Rightarrow>
      case getEntityAndColumn env matchTag of
        Inl e \<Rightarrow> Inl e
      | Inr (matchEntity, matchColumn) \<Rightarrow>
          (case whereOperand matchEntity matchValue of
             Inl e \<Rightarrow> Inl e
           | Inr (not_flag, whereValue) \<Rightarrow>
               Inr \<lparr>sql_not = not_flag, sql_entity = matchEntity,
                    sql_join = (Column ''pt2'' (productId matchEntity),
                                Column ''pt'' (productId parentEntity)),
                    sql_equals = (if whereValue \<noteq> JUndefined
                                  then Some (Column ''pt2'' matchColumn, whereValue)
                                  else None)\<rparr>))"

fun getFilterSql :: "env \<Rightarrow> (string \<times> jsval) list \<Rightarrow> entity \<Rightarrow> error + sql_exists list" where
  "getFilterSql env [] parentEntity = Inr []"
| "getFilterSql env (clause # filters) parentEntity =
     (case filterSqlClause env parentEntity clause of
        Inl e \<Rightarrow> Inl e
      | Inr c \<Rightarrow>
          (case getFilterSql env filters parentEntity of
             Inl e \<Rightarrow> Inl e
           | Inr whereClause \<Rightarrow> Inr (c # whereClause)))"

section \<open>The relational mirror\<close>

text \<open>
  The database is outside the repository. A table is a list of rows, a row gives the
  value of each column (\<open>NULL\<close> is \<open>JNull\<close>, which an absent column also reads as), and
  the conditions the service builds mean what the query builder and PostgreSQL make of
  them: a \<open>null\<close> value in a \<open>where\<close> object is \<open>IS NULL\<close>, \<open>{$in: [...]}\<close> is
  \<open>IN (...)\<close>, any other value is \<open>=\<close>, and a comparison with \<open>NULL\<close> is never true.
\<close>

type_synonym row = "(string \<times> jsval) list"

type_synonym database = "entity \<Rightarrow> row list"

definition cell :: "row \<Rightarrow> string \<Rightarrow> jsval" where
  "cell r c = (case map_of r c of Some v \<Rightarrow> v | None \<Rightarrow> JNull)"

fun matchesValue :: "jsval \<Rightarrow> jsval \<Rightarrow> bool" where
  "matchesValue x JNull = (x = JNull)"
| "matchesValue x (JObj kvs) =
     (case kvs of
        [(k, JArr xs)] \<Rightarrow> k = ''$in'' \<and> x \<noteq> JNull \<and> x \<in> set xs
      | _ \<Rightarrow> False)"
| "matchesValue x (JArr xs) = False"
| "matchesValue x JUndefined = False"
| "matchesValue x v = (x \<noteq> JNull \<and> x = v)"

fun whereHolds :: "row \<Rightarrow> row \<Rightarrow> column_ref \<times> where_value \<Rightarrow> bool" where
  "whereHolds r r2 (Column a c, Ref (Column a' c')) =
     (cell r2 c \<noteq> JNull \<and> cell r2 c = cell r c')"
| "whereHolds r r2 (Column a c, Val v) = matchesValue (cell r2 c) v"

fun holds :: "database \<Rightarrow> row \<Rightarrow> cond \<Rightarrow> bool" where
  "holds db r (Raw s) =
     (if s = ''not pt.obsolete'' then cell r ''obsolete'' = JBool False
      else if s = ''pt.obsolete'' then cell r ''obsolete'' = JBool True
      else False)"
| "holds db r (Exists not_flag sq) =
     (not_flag \<noteq> list_ex (\<lambda>r2. list_all (whereHolds r r2) (sub_where sq)) (db (sub_entity sq)))"

text \<open>The rows of the builder's table that satisfy all its conditions.\<close>

definition matchingRows :: "database \<Rightarrow> qb \<Rightarrow> row list" where
  "matchingRows db q = filter (\<lambda>r. list_all (holds db r) (qb_where q)) (db (qb_entity q))"

text \<open>
  \<open>select column _id, count(*) count ... group by column order by 2 desc\<close> with the
  limit and offset when they are set. PostgreSQL leaves the order of equal counts open;
  here they stay in order of first appearance.
\<close>

fun rowLimit :: "jsval option \<Rightarrow> 'a list \<Rightarrow> 'a list" where
  "rowLimit (Some (JNum n)) xs = take (nat n) xs"
| "rowLimit _ xs = xs"

fun rowOffset :: "jsval option \<Rightarrow> 'a list \<Rightarrow> 'a list" where
  "rowOffset (Some (JNum n)) xs = drop (nat n) xs"
| "rowOffset _ xs = xs"

definition groupCounts :: "string \<Rightarrow> row list \<Rightarrow> (jsval \<times> nat) list" where
  "groupCounts column rows =
     map (\<lambda>k. (k, length (filter (\<lambda>r. cell r column = k) rows)))
         (remdups (map (\<lambda>r. cell r column) rows))"

definition executeGroups :: "database \<Rightarrow> qb \<Rightarrow> string \<Rightarrow> (jsval \<times> nat) list" where
  "executeGroups db q column =
     rowLimit (qb_limit q) (rowOffset (qb_offset q)
       (sort_key (\<lambda>(k, n). - int n) (groupCounts column (matchingRows db q))))"

text \<open>\<open>select count(*) count from (select distinct column ...) temp\<close>.\<close>

definition executeCountDistinct :: "database \<Rightarrow> qb \<Rightarrow> string \<Rightarrow> nat" where
  "executeCountDistinct db q column =
     length (remdups (map (\<lambda>r. cell r column) (matchingRows db q)))"

section \<open>\<open>count\<close>, \<open>select\<close> and \<open>aggregate\<close>\<close>

text \<open>\<open>obsoleteWhere(obsolete)\<close>, lines 212 to 214.\<close>

definition obsoleteWhere :: "bool \<Rightarrow> string" where
  "obsoleteWhere obsolete = (if obsolete then [] else ''not '') @ ''pt.obsolete''"

text \<open>
  \<open>count(body, obsolete)\<close>, lines 217 to 241, up to \<open>qb.execute()\<close>, and then the
  whole of it on a database.
\<close>

definition countQuery :: "env \<Rightarrow> jsval \<Rightarrow> bool \<Rightarrow> error + qb" where
  "countQuery env body obsolete =
     (case parseFilter (if isNullish body then JObj [] else body) of
        Inl e \<Rightarrow> Inl e
      | Inr filters \<Rightarrow>
          (let q = (createQueryBuilder Product)
                     \<lparr>qb_select := SelectCount, qb_where := [Raw (obsoleteWhere obsolete)]\<rparr>
           in case addMatches env filters q Product of
                Inl e \<Rightarrow> Inl e
              | Inr (q', whereLog) \<Rightarrow> Inr q'))"

definition count :: "env \<Rightarrow> database \<Rightarrow> jsval \<Rightarrow> bool \<Rightarrow> error + nat" where
  "count env db body obsolete =
     (case countQuery env body obsolete of
        Inl e \<Rightarrow> Inl e
      | Inr q \<Rightarrow> Inr (length (matchingRows db q)))"

text \<open>\<open>select(body)\<close>, lines 244 to 262.\<close>

definition selectQuery :: "env \<Rightarrow> jsval \<Rightarrow> error + qb" where
  "selectQuery env body =
     (let q = (createQueryBuilder Product)\<lparr>qb_select := SelectAll\<rparr>
      in case parseFilter body of
           Inl e \<Rightarrow> Inl e
         | Inr filters \<Rightarrow>
             (case addMatches env filters q Product of
                Inl e \<Rightarrow> Inl e
              | Inr (q', whereLog) \<Rightarrow> Inr q'))"

definition select :: "env \<Rightarrow> database \<Rightarrow> jsval \<Rightarrow> error + row list" where
  "select env db body =
     (case selectQuery env body of
        Inl e \<Rightarrow> Inl e
      | Inr q \<Rightarrow> Inr (matchingRows db q))"

text \<open>
  \<open>body.find((o) => o[key])\<close> and \<open>body.some((o) => o[key])\<close> on the stages of the
  pipeline.
\<close>

fun findStage :: "jsval list \<Rightarrow> string \<Rightarrow> error + jsval" where
  "findStage [] key = Inr JUndefined"
| "findStage (s # stages) key =
     (case getMember s key of
        Inl e \<Rightarrow> Inl e
      | Inr v \<Rightarrow> if truthy v then Inr s else findStage stages key)"

definition stageValue :: "jsval \<Rightarrow> string \<Rightarrow> error + jsval" where
  "stageValue body key =
     (case body of
        JArr stages \<Rightarrow>
          (case findStage stages key of
             Inl e \<Rightarrow> Inl e
           | Inr s \<Rightarrow> Inr (getOptional s key))
      | _ \<Rightarrow> Inl TypeError)"

definition someStage :: "jsval \<Rightarrow> string \<Rightarrow> error + bool" where
  "someStage body key =
     (case body of
        JArr stages \<Rightarrow>
          (case findStage stages key of
             Inl e \<Rightarrow> Inl e
           | Inr s \<Rightarrow> Inr (s \<noteq> JUndefined))
      | _ \<Rightarrow> Inl TypeError)"

text \<open>\<open>group['_id'].substring(1)\<close>, then the rebinding of \<open>users_tags\<close>, lines 42 and 43.\<close>

definition groupTag :: "jsval \<Rightarrow> error + string" where
  "groupTag grp =
     (case getMember grp ''_id'' of
        Inl e \<Rightarrow> Inl e
      | Inr (JStr s) \<Rightarrow> Inr (let tag = drop 1 s in if tag = ''users_tags'' then ''creator'' else tag)
      | Inr _ \<Rightarrow> Inl TypeError)"

text \<open>
  The statement \<open>aggregate\<close> executes: the grouped query, or \<open>count(*)\<close> over the
  query of the distinct values of the column.
\<close>

datatype statement = Grouped qb string | CountDistinct qb string

text \<open>\<open>aggregate(body, obsolete)\<close>, lines 25 to 82, up to \<open>qb.execute()\<close>.\<close>

definition aggregateStatement :: "env \<Rightarrow> jsval \<Rightarrow> bool \<Rightarrow> error + (string \<times> statement)" where
  "aggregateStatement env body obsolete =
     (case stageValue body ''$match'' of Inl e \<Rightarrow> Inl e | Inr match \<Rightarrow>
      case stageValue body ''$group'' of Inl e \<Rightarrow> Inl e | Inr grp \<Rightarrow>
      case someStage body ''$count'' of Inl e \<Rightarrow> Inl e | Inr cnt \<Rightarrow>
      case stageValue body ''$limit'' of Inl e \<Rightarrow> Inl e | Inr limit \<Rightarrow>
      case stageValue body ''$skip'' of Inl e \<Rightarrow> Inl e | Inr skip \<Rightarrow>
      case groupTag grp of Inl e \<Rightarrow> Inl e | Inr tag \<Rightarrow>
      case getEntityAndColumn env tag of Inl e \<Rightarrow> Inl e | Inr (entity, column) \<Rightarrow>
        (let q = (createQueryBuilder entity)
                   \<lparr>qb_select := (if \<not> cnt then SelectGroupCount column else SelectDistinct column),
                    qb_where := [Raw (obsoleteWhere obsolete)]\<rparr>
         in case parseFilter match of Inl e \<Rightarrow> Inl e | Inr filters \<Rightarrow>
            case addMatches env filters q entity of Inl e \<Rightarrow> Inl e | Inr (q', whereLog) \<Rightarrow>
              if cnt then Inr (tag, CountDistinct q' column)
              else Inr (tag, Grouped
                     (q'\<lparr>qb_groupBy := Some column, qb_orderBy := Some (''2'', ''DESC''),
                         qb_limit := (if truthy limit then Some limit else None),
                         qb_offset := (if truthy skip then Some skip else None)\<rparr>) column)))"

text \<open>
  What \<open>aggregate\<close> returns: the rows of the grouped query, or the object with the one
  property \<open>response[tag] = results[0].count\<close>.
\<close>

datatype aggregate_result = Facets "(jsval \<times> nat) list" | Response string nat

definition aggregate :: "env \<Rightarrow> database \<Rightarrow> jsval \<Rightarrow> bool \<Rightarrow> error + aggregate_result" where
  "aggregate env db body obsolete =
     (case aggregateStatement env body obsolete of
        Inl e \<Rightarrow> Inl e
      | Inr (tag, Grouped q column) \<Rightarrow> Inr (Facets (executeGroups db q column))
      | Inr (tag, CountDistinct q column) \<Rightarrow> Inr (Response tag (executeCountDistinct db q column)))"

section \<open>The paginated popularity lookup: \<open>find\<close>\<close>

text \<open>
  The statement of lines 296 to 305: the country, the obsolete flag, the fragment of
  \<open>getFilterSql\<close>, and the limit and offset when \<open>body.limit\<close> and \<open>body.skip\<close>
  are truthy.
\<close>

record find_sql =
  fs_countryId :: jsval
  fs_obsolete :: bool
  fs_where :: "sql_exists list"
  fs_limit :: "jsval option"
  fs_offset :: "jsval option"

text \<open>
  The two stores are outside the repository: the rows of
  \<open>SELECT id FROM country WHERE tag = ...\<close>, the codes the ranked statement returns, in
  its order, and the documents the cursor of
  \<open>products.find({_id: {$in: productCodes}}, {projection})\<close> yields, in its order.
\<close>

record stores =
  country_rows :: "string \<Rightarrow> jsval list"
  ranked_codes :: "find_sql \<Rightarrow> string list"
  cursor_docs :: "string list \<Rightarrow> jsval \<Rightarrow> jsval list"

text \<open>\<open>delete filter.countries_tags\<close>.\<close>

fun deleteCountriesTags :: "jsval \<Rightarrow> jsval" where
  "deleteCountriesTags (JObj kvs) = JObj (filter (\<lambda>(k, v). k \<noteq> ''countries_tags'') kvs)"
| "deleteCountriesTags v = v"

text \<open>Lines 264 to 305 of \<open>find\<close>: the checks and the ranked statement.\<close>

definition findStatement :: "env \<Rightarrow> stores \<Rightarrow> jsval \<Rightarrow> bool \<Rightarrow> error + find_sql" where
  "findStatement env st body obsolete =
     (case getMember body ''sort'' of Inl e \<Rightarrow> Inl e | Inr sorting \<Rightarrow>
      if getOptional sorting ''length'' \<noteq> JNum 1
      then Inl (UnprocessableEntityException OnlyDescendingPopularity)
      else
      case getMember (getProp sorting (digits 0)) (digits 0) of Inl e \<Rightarrow> Inl e | Inr field \<Rightarrow>
      if field \<noteq> JStr ''popularity_key''
      then Inl (UnprocessableEntityException OnlyDescendingPopularity)
      else
      if getProp (getProp sorting (digits 0)) (digits 1) \<noteq> JNum (- 1)
      then Inl (UnprocessableEntityException OnlyDescendingPopularity)
      else
      if ProductCountry_TAG env \<notin> set (loadedTags env)
      then Inl (UnprocessableEntityException ScansNotLoaded)
      else
      case getMember (getProp body ''filter'') ''countries_tags'' of Inl e \<Rightarrow> Inl e
      | Inr countryTag \<Rightarrow>
      if countryTag \<noteq> JUndefined \<and> (case countryTag of JStr s \<Rightarrow> False | _ \<Rightarrow> True)
      then Inl (UnprocessableEntityException MultipleCountries)
      else
      (let countryTagValue = (case countryTag of JStr s \<Rightarrow> s | _ \<Rightarrow> ''en:world'')
       in case parseFilter (deleteCountriesTags (getProp body ''filter'')) of
            Inl e \<Rightarrow> Inl e
          | Inr filters \<Rightarrow>
              (case country_rows st countryTagValue of
                 [] \<Rightarrow> Inl TypeError
               | countryId # _ \<Rightarrow>
                   (case getFilterSql env filters ProductCountry of
                      Inl e \<Rightarrow> Inl e
                    | Inr whereClause \<Rightarrow>
                        Inr \<lparr>fs_countryId = countryId, fs_obsolete = obsolete,
                             fs_where = whereClause,
                             fs_limit = (if truthy (getProp body ''limit'')
                                         then Some (getProp body ''limit'') else None),
                             fs_offset = (if truthy (getProp body ''skip'')
                                          then Some (getProp body ''skip'') else None)\<rparr>))))"

text \<open>
  \<open>mongodbResults\<close> is a JavaScript array that is written by index: writing past the
  end leaves holes before the new element. A hole is \<open>None\<close>.
\<close>

definition placeAt :: "'a option list \<Rightarrow> nat \<Rightarrow> 'a \<Rightarrow> 'a option list" where
  "placeAt xs i v =
     (if i < length xs then xs[i := Some v]
      else xs @ replicate (i - length xs) None @ [Some v])"

text \<open>\<open>productCodes.indexOf(x)\<close>: the first index, or nothing for \<open>-1\<close>.\<close>

fun indexOf :: "'a list \<Rightarrow> 'a \<Rightarrow> nat option" where
  "indexOf [] x = None"
| "indexOf (y # ys) x = (if y = x then Some 0 else map_option Suc (indexOf ys x))"

text \<open>The loop over the cursor, lines 322 to 329.\<close>

fun collect :: "string list \<Rightarrow> jsval list \<Rightarrow> jsval option list \<Rightarrow> jsval option list" where
  "collect productCodes [] mongodbResults = mongodbResults"
| "collect productCodes (doc # cursor) mongodbResults =
     (if \<not> truthy doc then mongodbResults
      else case indexOf (map JStr productCodes) (getProp doc ''code'') of
             Some sortIndex \<Rightarrow> collect productCodes cursor (placeAt mongodbResults sortIndex doc)
           | None \<Rightarrow> collect productCodes cursor (mongodbResults @ [Some doc]))"

text \<open>\<open>find(body, obsolete)\<close>, lines 264 to 340.\<close>

definition find_query :: "env \<Rightarrow> stores \<Rightarrow> jsval \<Rightarrow> bool \<Rightarrow> error + jsval option list" where
  "find_query env st body obsolete =
     (case findStatement env st body obsolete of
        Inl e \<Rightarrow> Inl e
      | Inr statement \<Rightarrow>
          (let productCodes = ranked_codes st statement
           in Inr (collect productCodes
                     (cursor_docs st productCodes (getProp body ''projection'')) [])))"

section \<open>The event ingestor\<close>

text \<open>
  \<open>MessagesService\<close> is not among the sources; its tests are (\<open>messageTime\<close>,
  \<open>create\<close>, \<open>product_update\<close>). The inbound event is \<open>{id, message}\<close>, with the
  message fields the specification lists; an \<open>id\<close> that is \<open>null\<close> or missing is
  \<open>None\<close>.
\<close>

record message_fields =
  msg_code :: string
  msg_action :: "string option"
  msg_user_id :: "string option"
  msg_rev :: "int option"
  msg_timestamp :: "int option"
  msg_product_type :: "string option"
  msg_comment :: "string option"

record event =
  ev_id :: "string option"
  ev_message :: message_fields

text \<open>
  Modelled from the spec: \<open>MessagesService.messageTime\<close> is missing. A decimal digit,
  and the number that a string of decimal digits writes.
\<close>

definition isDigit :: "char \<Rightarrow> bool" where
  "isDigit c = (48 \<le> (of_char c :: nat) \<and> (of_char c :: nat) \<le> 57)"

definition decimal :: "string \<Rightarrow> int" where
  "decimal s = foldl (\<lambda>n c. 10 * n + (int (of_char c) - 48)) 0 s"

text \<open>
  Modelled from the spec: \<open>MessagesService.messageTime\<close> is missing. The numeric
  epoch-millisecond prefix embedded in the event id, before a separator: the characters
  before the first \<open>-\<close>, when there is a \<open>-\<close> and they are one or more decimal digits.
\<close>

definition idPrefix :: "string \<Rightarrow> int option" where
  "idPrefix s =
     (let p = takeWhile (\<lambda>c. c \<noteq> CHR ''-'') s
      in if CHR ''-'' \<in> set s \<and> p \<noteq> [] \<and> list_all isDigit p then Some (decimal p) else None)"

definition idTime :: "string option \<Rightarrow> int option" where
  "idTime eid = (case eid of None \<Rightarrow> None | Some s \<Rightarrow> idPrefix s)"

text \<open>
  Modelled from the spec: \<open>MessagesService.messageTime\<close> is missing. The logical time as
  section 4.2 words it: the prefix of the id when present, else the timestamp field in
  seconds, else the current time. Of the five tests of \<open>messageTime\<close> (\<open>part_001\<close>,
  lines 7 to 36) the last, \<open>should use timestamp if provided\<close>, passes the id
  \<open>100-0\<close> together with a timestamp and expects the timestamp, so the order of the
  first two sources in the missing code is not settled here. Ingestion stores this time
  in the rows it writes; no property below depends on it.
\<close>

definition messageTime :: "int \<Rightarrow> string option \<Rightarrow> int option \<Rightarrow> int" where
  "messageTime now eid ts =
     (case idTime eid of
        Some ms \<Rightarrow> ms
      | None \<Rightarrow> (case ts of Some t \<Rightarrow> t * 1000 | None \<Rightarrow> now))"

text \<open>
  Modelled from the spec: \<open>MessagesService.create\<close> is missing. The tables of section 3
  that ingestion writes, with the columns the steps of section 4.2 use.
\<close>

record product =
  product_id :: nat
  product_code :: string
  product_revision :: int
  product_owners_tags :: "string option"

record contributor =
  contributor_id :: nat
  contributor_code :: string

record product_update_event =
  pue_id :: "string option"
  pue_message :: message_fields
  pue_received_at :: int

record product_update =
  pu_product_id :: nat
  pu_revision :: int
  pu_update_type :: "string option"
  pu_contributor_id :: "nat option"
  pu_time :: int

record mirror =
  products :: "product list"
  contributors :: "contributor list"
  product_update_events :: "product_update_event list"
  product_updates :: "product_update list"

text \<open>
  Modelled from the spec: step 1, strip null and control characters from the free-text
  field.
\<close>

definition sanitize :: "message_fields \<Rightarrow> message_fields" where
  "sanitize m =
     m\<lparr>msg_comment := map_option (filter (\<lambda>c. 32 \<le> (of_char c :: nat))) (msg_comment m)\<rparr>"

text \<open>
  Modelled from the spec: the next surrogate id in creation order, one more than the
  largest id in use.
\<close>

definition nextId :: "nat list \<Rightarrow> nat" where
  "nextId ids = Suc (fold max ids 0)"

text \<open>
  Modelled from the spec: step 3, resolve or create the Contributor of the user
  identifier.
\<close>

definition resolveContributor :: "contributor list \<Rightarrow> string option \<Rightarrow> contributor list \<times> nat option"
  where
  "resolveContributor cs user =
     (case user of
        None \<Rightarrow> (cs, None)
      | Some u \<Rightarrow>
          (case List.find (\<lambda>c. contributor_code c = u) cs of
             Some c \<Rightarrow> (cs, Some (contributor_id c))
           | None \<Rightarrow>
               (let i = nextId (map contributor_id cs)
                in (cs @ [\<lparr>contributor_id = i, contributor_code = u\<rparr>], Some i))))"

text \<open>
  Modelled from the spec: step 4, resolve or create the Product by code; a supplied
  revision is used and the stored revision advances to at least it, otherwise the stored
  revision is used. A product created here starts at revision 0, the default that the
  design notes propose.
\<close>

definition findProduct :: "product list \<Rightarrow> string \<Rightarrow> product option" where
  "findProduct ps c = List.find (\<lambda>p. product_code p = c) ps"

definition resolveProduct :: "product list \<Rightarrow> string \<Rightarrow> int option \<Rightarrow> product list \<times> nat \<times> int"
  where
  "resolveProduct ps c r =
     (let ps1 = (case findProduct ps c of
                   Some p \<Rightarrow> ps
                 | None \<Rightarrow> ps @ [\<lparr>product_id = nextId (map product_id ps), product_code = c,
                                  product_revision = 0, product_owners_tags = None\<rparr>]);
          i = (case findProduct ps1 c of Some p \<Rightarrow> product_id p | None \<Rightarrow> 0);
          stored = (case findProduct ps1 c of Some p \<Rightarrow> product_revision p | None \<Rightarrow> 0)
      in case r of
           Some n \<Rightarrow>
             (map (\<lambda>p. if product_code p = c
                        then p\<lparr>product_revision := max (product_revision p) n\<rparr> else p) ps1,
              i, n)
         | None \<Rightarrow> (ps1, i, stored))"

text \<open>
  Modelled from the spec: step 5, insert the ProductUpdate row keyed by (product,
  revision), or skip when a row with that pair exists.
\<close>

definition insertUpdate :: "product_update list \<Rightarrow> product_update \<Rightarrow> product_update list" where
  "insertUpdate us u =
     (if list_ex (\<lambda>x. pu_product_id x = pu_product_id u \<and> pu_revision x = pu_revision u) us
      then us else us @ [u])"

text \<open>
  Modelled from the spec: the steps 1 to 5 of section 4.2 for one event, and step 6,
  which says whether the code joins the pending set.
\<close>

definition ingestEvent :: "int \<Rightarrow> bool \<Rightarrow> mirror \<Rightarrow> event \<Rightarrow> mirror \<times> bool" where
  "ingestEvent now suppressSync s e =
     (let m = sanitize (ev_message e);
          t = messageTime now (ev_id e) (msg_timestamp m);
          log = product_update_events s
                  @ [\<lparr>pue_id = ev_id e, pue_message = m, pue_received_at = now\<rparr>];
          (cs, contributorId) = resolveContributor (contributors s) (msg_user_id m);
          (ps, productId, revision) = resolveProduct (products s) (msg_code m) (msg_rev m);
          us = insertUpdate (product_updates s)
                 \<lparr>pu_product_id = productId, pu_revision = revision,
                  pu_update_type = msg_action m, pu_contributor_id = contributorId,
                  pu_time = t\<rparr>
      in (\<lparr>products = ps, contributors = cs, product_update_events = log,
            product_updates = us\<rparr>,
          \<not> suppressSync \<and> msg_product_type m = Some ''food''))"

text \<open>
  Modelled from the spec: \<open>ingest(events, suppressSync)\<close>, the events in order; the
  second component is the pending set handed to the scoped refresh.
\<close>

fun ingest :: "int \<Rightarrow> bool \<Rightarrow> mirror \<Rightarrow> event list \<Rightarrow> mirror \<times> string list" where
  "ingest now suppressSync s [] = (s, [])"
| "ingest now suppressSync s (e # es) =
     (case ingestEvent now suppressSync s e of
        (s1, pending) \<Rightarrow>
          (case ingest now suppressSync s1 es of
             (s2, codes) \<Rightarrow>
               (s2, if pending then List.insert (msg_code (ev_message e)) codes else codes)))"

text \<open>
  Modelled from the spec: a sequence of deliveries, each one call of \<open>ingest\<close> with
  its clock, its flag and its batch.
\<close>

fun deliver :: "mirror \<Rightarrow> (int \<times> bool \<times> event list) list \<Rightarrow> mirror" where
  "deliver s [] = s"
| "deliver s ((now, suppressSync, es) # batches) =
     deliver (fst (ingest now suppressSync s es)) batches"

text \<open>
  Modelled from the spec: the view ProductUpdatesByOwner, the update-count of an owner
  tag and update type: the number of ProductUpdate rows joined to a Product with that
  owner.
\<close>

definition ownerOf :: "mirror \<Rightarrow> nat \<Rightarrow> string option" where
  "ownerOf s i =
     (case List.find (\<lambda>p. product_id p = i) (products s) of
        Some p \<Rightarrow> product_owners_tags p
      | None \<Rightarrow> None)"

definition update_count :: "mirror \<Rightarrow> string option \<Rightarrow> string option \<Rightarrow> nat" where
  "update_count s owner update_type =
     length (filter (\<lambda>u. ownerOf s (pu_product_id u) = owner \<and> pu_update_type u = update_type)
               (product_updates s))"

text \<open>
  Modelled from the spec: the ProductUpdate rows of a product code and a revision, through
  the product reference.
\<close>

definition updatesOf :: "mirror \<Rightarrow> string \<Rightarrow> int \<Rightarrow> product_update list" where
  "updatesOf s c r =
     filter (\<lambda>u. map_option product_id (findProduct (products s) c) = Some (pu_product_id u)
                 \<and> pu_revision u = r)
       (product_updates s)"

text \<open>
  Modelled from the spec: the uniqueness constraints of the schema, on the product id,
  on the product code, and on the key (product, revision) of ProductUpdate.
\<close>

definition constraints :: "mirror \<Rightarrow> bool" where
  "constraints s =
     (distinct (map product_id (products s))
      \<and> distinct (map product_code (products s))
      \<and> distinct (map (\<lambda>u. (pu_product_id u, pu_revision u)) (product_updates s)))"

section \<open>Notions the statements use\<close>

text \<open>
  A listed value that the loop of \<open>scanValues\<close> passes over: not \<open>null\<close>, not of
  length 0, and neither an object nor an array.
\<close>

definition plainScalar :: "jsval \<Rightarrow> bool" where
  "plainScalar v = (\<not> isNullish v \<and> getProp v ''length'' \<noteq> JNum 0 \<and> \<not> isObject v)"

text \<open>The value of a clause after a truthy \<open>$ne\<close> has been taken off, line 138 to 141.\<close>

definition unwrapped :: "jsval \<Rightarrow> jsval" where
  "unwrapped v = (if truthy (getOptional v ''$ne'') then getOptional v ''$ne'' else v)"

text \<open>The same condition with \<open>EXISTS\<close> and \<open>NOT EXISTS\<close> exchanged.\<close>

fun flipCond :: "cond \<Rightarrow> cond" where
  "flipCond (Exists not_flag sq) = Exists (\<not> not_flag) sq"
| "flipCond (Raw s) = Raw s"

text \<open>
  The record among \<open>docs\<close> whose \<open>code\<close> is \<open>c\<close>, and what it means for the
  array \<open>res\<close> to hold the records by rank: slot \<open>i\<close> is the record of the code of
  rank \<open>i\<close> or a hole, no code beyond the end has a record, and the last slot is a
  record.
\<close>

definition recordOf :: "jsval list \<Rightarrow> string \<Rightarrow> jsval option" where
  "recordOf docs c = List.find (\<lambda>d. getProp d ''code'' = JStr c) docs"

definition byRank :: "string list \<Rightarrow> jsval list \<Rightarrow> jsval option list \<Rightarrow> bool" where
  "byRank codes docs res =
     (length res \<le> length codes
      \<and> (\<forall>i < length res. res ! i = recordOf docs (codes ! i))
      \<and> (\<forall>i. length res \<le> i \<and> i < length codes \<longrightarrow> recordOf docs (codes ! i) = None)
      \<and> (res \<noteq> [] \<longrightarrow> last res \<noteq> None))"

text \<open>
  The key of a ProductUpdate row, the id that a product code has in the mirror, and
  the fact that a row exists for a code and a revision.
\<close>

definition updateKey :: "product_update \<Rightarrow> nat \<times> int" where
  "updateKey u = (pu_product_id u, pu_revision u)"

definition idOf :: "mirror \<Rightarrow> string \<Rightarrow> nat option" where
  "idOf s c = map_option product_id (findProduct (products s) c)"

definition recorded :: "mirror \<Rightarrow> string \<Rightarrow> int \<Rightarrow> bool" where
  "recorded s c r = (\<exists>i. idOf s c = Some i \<and> (i, r) \<in> updateKey ` set (product_updates s))"

text \<open>
  The two steps of \<open>resolveProduct\<close> by name: the table once the product of the code
  is in it, and the advance of the stored revision of that product.
\<close>

definition advance :: "string \<Rightarrow> int \<Rightarrow> product \<Rightarrow> product" where
  "advance c n p =
     (if product_code p = c then p\<lparr>product_revision := max (product_revision p) n\<rparr> else p)"

definition ensured :: "product list \<Rightarrow> string \<Rightarrow> product list" where
  "ensured ps c =
     (case findProduct ps c of
        Some p \<Rightarrow> ps
      | None \<Rightarrow> ps @ [\<lparr>product_id = nextId (map product_id ps), product_code = c,
                        product_revision = 0, product_owners_tags = None\<rparr>])"

section \<open>Example data\<close>

text \<open>
  A small schema, two products of which the second is obsolete and has no creator,
  and their brands; used to run the definitions.
\<close>

definition example_env :: env where
  "example_env =
     \<lparr>MAPPED_FIELDS = [''code'', ''creator''],
      MAPPED_TAGS = [(''brands_tags'', Entity ''ProductBrandsTag''),
                     (''countries_tags'', Entity ''ProductCountry''),
                     (''labels_tags'', Entity ''ProductLabelsTag'')],
      loadedTags = [''brands_tags'', ''countries_tags''],
      ProductCountry_TAG = ''countries_tags''\<rparr>"

definition example_product1 :: row where
  "example_product1 =
     [(''id'', JNum 1), (''code'', JStr ''001''), (''obsolete'', JBool False),
      (''creator'', JStr ''alice'')]"

definition example_product2 :: row where
  "example_product2 =
     [(''id'', JNum 2), (''code'', JStr ''002''), (''obsolete'', JBool True),
      (''creator'', JNull)]"

definition example_db :: database where
  "example_db entity =
     (if entity = Product then [example_product1, example_product2]
      else if entity = Entity ''ProductBrandsTag'' then
        [[(''product_id'', JNum 1), (''value'', JStr ''acme''), (''obsolete'', JBool False)],
         [(''product_id'', JNum 1), (''value'', JStr ''zeta''), (''obsolete'', JBool False)],
         [(''product_id'', JNum 2), (''value'', JStr ''acme''), (''obsolete'', JBool True)]]
      else [])"

definition example_filter :: jsval where
  "example_filter =
     JObj [(''brands_tags'', JStr ''acme''), (''code'', JObj [(''$in'', JArr [])])]"

definition example_pipeline :: "jsval \<Rightarrow> jsval list \<Rightarrow> jsval" where
  "example_pipeline f extra =
     JArr (JObj [(''$match'', f)]
           # JObj [(''$group'', JObj [(''_id'', JStr ''$brands_tags'')])] # extra)"

definition example_doc :: "string \<Rightarrow> jsval" where
  "example_doc c = JObj [(''_id'', JStr c), (''code'', JStr c)]"

definition example_stores :: stores where
  "example_stores =
     \<lparr>country_rows = (\<lambda>tag. if tag = ''en:world'' then [JNum 1] else []),
      ranked_codes = (\<lambda>statement. [''001'', ''002'', ''003'']),
      cursor_docs = (\<lambda>codes projection. [example_doc ''003'', example_doc ''001''])\<rparr>"

definition example_find :: jsval where
  "example_find =
     JObj [(''filter'', JObj []),
           (''sort'', JArr [JArr [JStr ''popularity_key'', JNum (- 1)]])]"

text \<open>
  The data of the test \<open>should aggregate events by count and distinct products\<close>
  (\<open>part_001\<close>, lines 139 to 216): two products of one owner, and four events of which
  the third repeats the revision of the second.
\<close>

definition example_mirror :: mirror where
  "example_mirror =
     \<lparr>products =
        [\<lparr>product_id = 1, product_code = ''0001'', product_revision = 0,
          product_owners_tags = Some ''owner1''\<rparr>,
         \<lparr>product_id = 2, product_code = ''0002'', product_revision = 0,
          product_owners_tags = Some ''owner1''\<rparr>],
      contributors = [], product_update_events = [], product_updates = []\<rparr>"

definition example_event :: "string \<Rightarrow> int \<Rightarrow> event" where
  "example_event n r =
     \<lparr>ev_id = Some (''170000000'' @ n @ ''-0''),
      ev_message =
        \<lparr>msg_code = (if n = ''0003'' then ''0002'' else ''0001''), msg_action = Some ''created'',
         msg_user_id = Some ''test'', msg_rev = Some r, msg_timestamp = None,
         msg_product_type = None, msg_comment = None\<rparr>\<rparr>"

definition example_batch :: "event list" where
  "example_batch =
     [example_event ''0000'' 1, example_event ''0001'' 2, example_event ''0002'' 2,
      example_event ''0003'' 1]"

section \<open>Properties of filter normalisation\<close>

lemma concat_all_append:
  "concat_all (xs @ ys) =
     (case concat_all xs of
        Inl e \<Rightarrow> Inl e
      | Inr a \<Rightarrow> (case concat_all ys of Inl e \<Rightarrow> Inl e | Inr b \<Rightarrow> Inr (a @ b)))"
  by (induction xs) (auto split: sum.splits)

lemma concat_all_set:
  "concat_all rs = Inr cs \<Longrightarrow> x \<in> set cs \<Longrightarrow> \<exists>ys. Inr ys \<in> set rs \<and> x \<in> set ys"
proof (induction rs arbitrary: cs)
  case Nil
  then show ?case by simp
next
  case (Cons r rs)
  from Cons.prems(1) obtain a b where r: "r = Inr a" and b: "concat_all rs = Inr b"
    and cs: "cs = a @ b"
    by (auto split: sum.splits)
  from Cons.prems(2) cs consider "x \<in> set a" | "x \<in> set b" by auto
  then show ?case
  proof cases
    case 1
    with r show ?thesis by auto
  next
    case 2
    from Cons.IH [OF b 2] show ?thesis by auto
  qed
qed

text \<open>The clauses of one entry of a filter object, as the body of the outer loop gives them.\<close>

lemma parseFilter_object:
  "parseFilter (JObj kvs) =
     concat_all (map (\<lambda>(k, v).
            if k = ''$and'' then
              (case iterate v of
                 Inl e \<Rightarrow> Inl e
               | Inr subs \<Rightarrow> concat_all (map parseFilter subs))
            else
              (case getMember v ''$all'' of
                 Inl e \<Rightarrow> Inl e
               | Inr all \<Rightarrow>
                   if truthy all then
                     (case iterate all of
                        Inl e \<Rightarrow> Inl e
                      | Inr vals \<Rightarrow> Inr (map (\<lambda>val. (k, val)) vals))
                   else Inr [(k, v)])) kvs)"
  by (subst parseFilter.simps) simp

lemma parseFilter_and_entry:
  "parseFilter (JObj (pre @ (''$and'', JArr subs) # post)) =
     concat_all [parseFilter (JObj pre), concat_all (map parseFilter subs),
                 parseFilter (JObj post)]"
  by (simp add: parseFilter_object concat_all_append split: sum.splits)

lemma parseFilter_all_entry:
  "t \<noteq> ''$and'' \<Longrightarrow>
   parseFilter (JObj (pre @ (t, JObj [(''$all'', JArr vs)]) # post)) =
     concat_all [parseFilter (JObj pre), Inr (map (\<lambda>v. (t, v)) vs), parseFilter (JObj post)]"
  by (simp add: parseFilter_object concat_all_append getMember_def split: sum.splits)

text \<open>No conjunction marker survives normalisation, at any depth of nesting.\<close>

lemma parseFilter_no_and:
  "parseFilter m = Inr cs \<Longrightarrow> (k, v) \<in> set cs \<Longrightarrow> k \<noteq> ''$and''"
proof (induction m arbitrary: cs k v rule: parseFilter.induct)
  case (1 matches)
  from "1.prems"(1) obtain es where es: "entries matches = Inr es"
    by (subst (asm) parseFilter.simps) (auto split: sum.splits)
  let ?f = "\<lambda>(k, v).
            if k = ''$and'' then
              (case iterate v of
                 Inl e \<Rightarrow> Inl e
               | Inr subs \<Rightarrow> concat_all (map parseFilter subs))
            else
              (case getMember v ''$all'' of
                 Inl e \<Rightarrow> Inl e
               | Inr all \<Rightarrow>
                   if truthy all then
                     (case iterate all of
                        Inl e \<Rightarrow> Inl e
                      | Inr vals \<Rightarrow> Inr (map (\<lambda>val. (k, val)) vals))
                   else Inr [(k, v)])"
  from "1.prems"(1) es have c: "concat_all (map ?f es) = Inr cs"
    by (subst (asm) parseFilter.simps) simp
  from concat_all_set [OF c "1.prems"(2)] obtain ys k' v'
    where kv: "(k', v') \<in> set es" and ys: "?f (k', v') = Inr ys" and mem: "(k, v) \<in> set ys"
    by force
  show ?case
  proof (cases "k' = ''$and''")
    case True
    with ys obtain subs where subs: "iterate v' = Inr subs"
      and cc: "concat_all (map parseFilter subs) = Inr ys"
      by (auto split: sum.splits)
    from concat_all_set [OF cc mem] obtain sub zs
      where "sub \<in> set subs" "parseFilter sub = Inr zs" "(k, v) \<in> set zs"
      by force
    with "1.IH" [OF es kv refl True subs] show ?thesis by blast
  next
    case False
    with ys mem show ?thesis by (auto split: sum.splits if_splits)
  qed
qed

section \<open>Properties of clause compilation\<close>

text \<open>
  When \<open>addMatches\<close> returns, every clause compiled, the builder gained exactly their
  conditions, in order, and nothing else of it changed.
\<close>

lemma addMatches_conditions:
  "addMatches env cs q parent = Inr (q', lg) \<Longrightarrow>
   \<exists>cls. map (matchCondition env parent) cs = map Inr cls
     \<and> q' = q\<lparr>qb_where := qb_where q @ map fst cls\<rparr> \<and> lg = map snd cls"
proof (induction cs arbitrary: q q' lg)
  case Nil
  then show ?case by simp
next
  case (Cons c cs)
  from Cons.prems obtain cnd line q1 lg1 where
    c: "matchCondition env parent c = Inr (cnd, line)"
    and r: "addMatches env cs (andWhere q cnd) parent = Inr (q1, lg1)"
    and q': "q' = q1" and lg: "lg = line # lg1"
    by (auto split: sum.splits prod.splits)
  from Cons.IH [OF r] obtain cls where
    cls: "map (matchCondition env parent) cs = map Inr cls"
    and q1: "q1 = (andWhere q cnd)\<lparr>qb_where := qb_where (andWhere q cnd) @ map fst cls\<rparr>"
    and lg1: "lg1 = map snd cls"
    by blast
  show ?case
  proof (intro exI conjI)
    show "map (matchCondition env parent) (c # cs) = map Inr ((cnd, line) # cls)"
      using c cls by simp
    show "q' = q\<lparr>qb_where := qb_where q @ map fst ((cnd, line) # cls)\<rparr>"
      using q' q1 by (simp add: andWhere_def)
    show "lg = map snd ((cnd, line) # cls)" using lg lg1 by simp
  qed
qed

lemma scanValues_flip:
  "scanValues ent L (\<not> n, w) = map_sum id (\<lambda>(n', v). (\<not> n', v)) (scanValues ent L (n, w))"
  by (induction L) auto

lemma scanValues_sentinel:
  "list_all plainScalar pre \<Longrightarrow> isNullish s \<or> getProp s ''length'' = JNum 0 \<Longrightarrow>
   scanValues ent (pre @ s # post) (n, w) =
     (if ent = Product then Inr (n, JNull) else Inr (\<not> n, JUndefined))"
  by (induction pre) (auto simp: plainScalar_def)

lemma scanValues_object:
  "list_all plainScalar pre \<Longrightarrow> isObject x \<Longrightarrow> getProp x ''length'' \<noteq> JNum 0 \<Longrightarrow>
   scanValues ent (pre @ x # post) (n, w) =
     Inl (UnprocessableEntityException (UnableToProcess w))"
  by (induction pre) (auto simp: plainScalar_def elim: isNullish.elims)

lemma whereOperand_unwrapped:
  "whereOperand ent v =
     (let not_flag = truthy (getOptional v ''$ne''); whereValue = unwrapped v
      in if isObject whereValue then
           (case objectKeys whereValue of
              [operator] \<Rightarrow>
                if operator \<noteq> ''$in'' \<and> operator \<noteq> ''$nin''
                then Inl (UnprocessableEntityException (UnableToProcess whereValue))
                else
                  (case getMember (getProp whereValue operator) ''length'' of
                     Inl e \<Rightarrow> Inl e
                   | Inr len \<Rightarrow>
                       if \<not> truthy len
                       then Inl (UnprocessableEntityException (UnableToProcess whereValue))
                       else
                         (let (whereValue', not_flag') =
                                (if operator = ''$nin''
                                 then (JObj [(''$in'', getProp whereValue ''$nin'')], \<not> not_flag)
                                 else (whereValue, not_flag))
                          in case iterate (getProp whereValue' ''$in'') of
                               Inl e \<Rightarrow> Inl e
                             | Inr vals \<Rightarrow> scanValues ent vals (not_flag', whereValue')))
            | _ \<Rightarrow> Inl (UnprocessableEntityException (UnableToProcess whereValue)))
         else Inr (not_flag, whereValue))"
  by (simp add: whereOperand_def unwrapped_def Let_def)

lemma whereOperand_list:
  assumes "op = ''$in'' \<or> op = ''$nin''" and "unwrapped v = JObj [(op, JArr L)]" and "L \<noteq> []"
  shows "whereOperand ent v =
     scanValues ent L ((op = ''$nin'') \<noteq> truthy (getOptional v ''$ne''), JObj [(''$in'', JArr L)])"
  using assms by (auto simp: whereOperand_unwrapped getMember_def)

lemma whereOperand_empty_list:
  assumes "op = ''$in'' \<or> op = ''$nin''" and "unwrapped v = JObj [(op, JArr [])]"
  shows "whereOperand ent v = Inl (UnprocessableEntityException (UnableToProcess (unwrapped v)))"
  using assms by (auto simp: whereOperand_unwrapped getMember_def)

lemma whereOperand_unsupported:
  assumes "isObject (unwrapped v)"
    and "\<forall>op x. unwrapped v = JObj [(op, x)] \<longrightarrow> op \<noteq> ''$in'' \<and> op \<noteq> ''$nin''"
  shows "whereOperand ent v = Inl (UnprocessableEntityException (UnableToProcess (unwrapped v)))"
proof (cases "unwrapped v")
  case (JObj kvs)
  show ?thesis
  proof (cases kvs)
    case Nil
    with JObj show ?thesis by (simp add: whereOperand_unwrapped)
  next
    case (Cons kv rest)
    obtain k x where kv: "kv = (k, x)" by (cases kv)
    show ?thesis
    proof (cases rest)
      case Nil
      with JObj Cons kv assms(2) have "k \<noteq> ''$in'' \<and> k \<noteq> ''$nin''" by simp
      with JObj Cons kv Nil show ?thesis by (simp add: whereOperand_unwrapped)
    next
      case (Cons a list)
      with JObj \<open>kvs = kv # rest\<close> show ?thesis by (simp add: whereOperand_unwrapped)
    qed
  qed
next
  case (JArr xs)
  have "digits 0 \<noteq> ''$in''" "digits 0 \<noteq> ''$nin''"
    using digits_no_dollar [of 0] by auto
  with JArr show ?thesis
    by (cases xs; cases "tl xs") (auto simp: whereOperand_unwrapped upt_rec)
qed (use assms(1) in auto)

lemma matchCondition_resolved:
  "getEntityAndColumn env t = Inr (ent, col) \<Longrightarrow>
   matchCondition env parent (t, v) =
     (case whereOperand ent v of
        Inl e \<Rightarrow> Inl e
      | Inr (not_flag, whereValue) \<Rightarrow>
          Inr (Exists not_flag
                 \<lparr>sub_entity = ent,
                  sub_where =
                    (if whereValue \<noteq> JUndefined
                     then assign [(Column ''pt2'' (productId ent),
                                   Ref (Column ''pt'' (productId parent)))]
                            (Column ''pt2'' col) (Val whereValue)
                     else [(Column ''pt2'' (productId ent),
                            Ref (Column ''pt'' (productId parent)))])\<rparr>,
               (t, not_flag, whereValue)))"
  by (simp add: matchCondition_def Let_def split: sum.splits prod.splits)

lemma filterSqlClause_resolved:
  "getEntityAndColumn env t = Inr (ent, col) \<Longrightarrow>
   filterSqlClause env parent (t, v) =
     (case whereOperand ent v of
        Inl e \<Rightarrow> Inl e
      | Inr (not_flag, whereValue) \<Rightarrow>
          Inr \<lparr>sql_not = not_flag, sql_entity = ent,
               sql_join = (Column ''pt2'' (productId ent), Column ''pt'' (productId parent)),
               sql_equals = (if whereValue \<noteq> JUndefined
                             then Some (Column ''pt2'' col, whereValue) else None)\<rparr>)"
  by (simp add: filterSqlClause_def split: sum.splits prod.splits)

lemma getEntityAndColumn_error:
  "getEntityAndColumn env t = Inl e \<Longrightarrow> \<exists>m. e = UnprocessableEntityException m"
  by (auto simp: getEntityAndColumn_def split: if_splits option.splits)

lemma matchCondition_parent:
  "matchCondition env p c = Inl e \<Longrightarrow> matchCondition env p' c = Inl e"
  "matchCondition env p c = Inr r \<Longrightarrow> \<exists>r'. matchCondition env p' c = Inr r'"
  by (auto simp: matchCondition_def Let_def split: sum.splits prod.splits)

lemma addMatches_first_failure:
  assumes "\<forall>c \<in> set ok. \<exists>r. matchCondition env parent c = Inr r"
    and "matchCondition env parent c = Inl e"
  shows "addMatches env (ok @ c # rest) q parent = Inl e"
  using assms
proof (induction ok arbitrary: q)
  case Nil
  then show ?case by simp
next
  case (Cons a ok)
  from Cons.prems(1) obtain cnd line where a: "matchCondition env parent a = Inr (cnd, line)"
    by force
  from Cons.prems have "addMatches env (ok @ c # rest) (andWhere q cnd) parent = Inl e"
    by (intro Cons.IH) auto
  with a show ?case by simp
qed

lemma clause_failure:
  assumes "(t \<noteq> [] \<and> t \<notin> set (MAPPED_FIELDS env) \<and> map_of (MAPPED_TAGS env) t = None)
     \<or> (t \<noteq> [] \<and> t \<notin> set (MAPPED_FIELDS env) \<and> map_of (MAPPED_TAGS env) t = Some ent
          \<and> t \<notin> set (loadedTags env))
     \<or> (getEntityAndColumn env t = Inr (ent, col) \<and>
          ((isObject (unwrapped v)
             \<and> (\<forall>op x. unwrapped v = JObj [(op, x)] \<longrightarrow> op \<noteq> ''$in'' \<and> op \<noteq> ''$nin''))
           \<or> ((op = ''$in'' \<or> op = ''$nin'') \<and> unwrapped v = JObj [(op, JArr [])])
           \<or> ((op = ''$in'' \<or> op = ''$nin'') \<and> unwrapped v = JObj [(op, JArr (pre @ x # post))]
                \<and> list_all plainScalar pre \<and> isObject x \<and> getProp x ''length'' \<noteq> JNum 0)))"
  shows "matchCondition env parent (t, v) =
     Inl (UnprocessableEntityException
       (if t \<noteq> [] \<and> t \<notin> set (MAPPED_FIELDS env) \<and> map_of (MAPPED_TAGS env) t = None
        then TagNotSupported t
        else if t \<noteq> [] \<and> t \<notin> set (MAPPED_FIELDS env) \<and> t \<notin> set (loadedTags env)
        then TagNotLoaded t
        else if (op = ''$in'' \<or> op = ''$nin'')
                \<and> unwrapped v = JObj [(op, JArr (pre @ x # post))]
        then UnableToProcess (JObj [(''$in'', JArr (pre @ x # post))])
        else UnableToProcess (unwrapped v)))"
proof -
  consider
    (unknown) "t \<noteq> []" "t \<notin> set (MAPPED_FIELDS env)" "map_of (MAPPED_TAGS env) t = None"
  | (unloaded) "t \<noteq> []" "t \<notin> set (MAPPED_FIELDS env)" "map_of (MAPPED_TAGS env) t = Some ent"
      "t \<notin> set (loadedTags env)"
  | (unsupported) "getEntityAndColumn env t = Inr (ent, col)" "isObject (unwrapped v)"
      "\<forall>op x. unwrapped v = JObj [(op, x)] \<longrightarrow> op \<noteq> ''$in'' \<and> op \<noteq> ''$nin''"
  | (empty) "getEntityAndColumn env t = Inr (ent, col)" "op = ''$in'' \<or> op = ''$nin''"
      "unwrapped v = JObj [(op, JArr [])]"
  | (nonscalar) "getEntityAndColumn env t = Inr (ent, col)" "op = ''$in'' \<or> op = ''$nin''"
      "unwrapped v = JObj [(op, JArr (pre @ x # post))]" "list_all plainScalar pre"
      "isObject x" "getProp x ''length'' \<noteq> JNum 0"
    using assms by argo
  then show ?thesis
  proof cases
    case unknown
    then show ?thesis by (simp add: matchCondition_def getEntityAndColumn_def)
  next
    case unloaded
    then show ?thesis by (simp add: matchCondition_def getEntityAndColumn_def)
  next
    case unsupported
    from unsupported(1) have r: "\<not> (t \<noteq> [] \<and> t \<notin> set (MAPPED_FIELDS env)
        \<and> (map_of (MAPPED_TAGS env) t = None \<or> t \<notin> set (loadedTags env)))"
      by (auto simp: getEntityAndColumn_def split: if_splits option.splits)
    from unsupported(3) have n: "\<not> ((op = ''$in'' \<or> op = ''$nin'')
        \<and> unwrapped v = JObj [(op, JArr (pre @ x # post))])"
      by blast
    have "matchCondition env parent (t, v) =
        Inl (UnprocessableEntityException (UnableToProcess (unwrapped v)))"
      by (simp add: matchCondition_resolved [OF unsupported(1)]
          whereOperand_unsupported [OF unsupported(2,3)])
    with r n show ?thesis by presburger
  next
    case empty
    from empty(1) have r: "\<not> (t \<noteq> [] \<and> t \<notin> set (MAPPED_FIELDS env)
        \<and> (map_of (MAPPED_TAGS env) t = None \<or> t \<notin> set (loadedTags env)))"
      by (auto simp: getEntityAndColumn_def split: if_splits option.splits)
    from empty(3) have n: "\<not> ((op = ''$in'' \<or> op = ''$nin'')
        \<and> unwrapped v = JObj [(op, JArr (pre @ x # post))])"
      by simp
    have "matchCondition env parent (t, v) =
        Inl (UnprocessableEntityException (UnableToProcess (unwrapped v)))"
      by (simp add: matchCondition_resolved [OF empty(1)]
          whereOperand_empty_list [OF empty(2,3)])
    with r n show ?thesis by presburger
  next
    case nonscalar
    from nonscalar(1) have r: "\<not> (t \<noteq> [] \<and> t \<notin> set (MAPPED_FIELDS env)
        \<and> (map_of (MAPPED_TAGS env) t = None \<or> t \<notin> set (loadedTags env)))"
      by (auto simp: getEntityAndColumn_def split: if_splits option.splits)
    have n: "(op = ''$in'' \<or> op = ''$nin'')
        \<and> unwrapped v = JObj [(op, JArr (pre @ x # post))]"
      using nonscalar(2,3) by simp
    have "matchCondition env parent (t, v) =
        Inl (UnprocessableEntityException
          (UnableToProcess (JObj [(''$in'', JArr (pre @ x # post))])))"
      by (simp add: matchCondition_resolved [OF nonscalar(1)]
          whereOperand_list [OF nonscalar(2,3)] scanValues_object [OF nonscalar(4,5,6)])
    with r n show ?thesis by presburger
  qed
qed

lemma parseFilter_nullish: "isNullish body \<Longrightarrow> parseFilter body = Inl TypeError"
  by (cases body) (simp_all add: parseFilter.simps)

section \<open>Properties of the queries\<close>

lemma findStage_error: "findStage stages k = Inl e \<Longrightarrow> e = TypeError"
  by (induction stages) (auto simp: getMember_def split: if_splits)

lemma findStage_absent:
  "\<forall>s \<in> set stages. \<not> truthy (getOptional s k) \<Longrightarrow> findStage stages k = Inr s \<Longrightarrow>
   s = JUndefined"
  by (induction stages) (auto simp: getMember_def getOptional_def split: if_splits)

lemma stageValue_error: "stageValue body k = Inl e \<Longrightarrow> e = TypeError"
  by (cases body) (auto simp: stageValue_def dest: findStage_error split: sum.splits)

lemma someStage_error: "someStage body k = Inl e \<Longrightarrow> e = TypeError"
  by (cases body) (auto simp: someStage_def dest: findStage_error split: sum.splits)

lemma stageValue_absent:
  assumes "\<forall>stages. body = JArr stages \<longrightarrow> (\<forall>s \<in> set stages. \<not> truthy (getOptional s k))"
    and "stageValue body k = Inr v"
  shows "v = JUndefined"
proof (cases body)
  case (JArr stages)
  with assms(2) obtain s where s: "findStage stages k = Inr s" and v: "v = getOptional s k"
    by (auto simp: stageValue_def split: sum.splits)
  from assms(1) JArr have "\<forall>s \<in> set stages. \<not> truthy (getOptional s k)" by blast
  from findStage_absent [OF this s] v show ?thesis by (simp add: getOptional_def)
qed (use assms(2) in \<open>auto simp: stageValue_def\<close>)

lemma matchCondition_is_exists:
  "matchCondition env parent c = Inr (cnd, line) \<Longrightarrow> \<exists>n sq. cnd = Exists n sq"
  by (cases c) (auto simp: matchCondition_def Let_def split: sum.splits prod.splits)

lemma map_Inr_conditions:
  assumes "map (matchCondition env parent) cs = map Inr cls" and "x \<in> set cls"
  shows "\<exists>n sq. fst x = Exists n sq"
proof -
  from assms(2) obtain i where i: "i < length cls" "cls ! i = x" by (auto simp: in_set_conv_nth)
  from assms(1) have len: "length cs = length cls" by (metis length_map)
  from assms(1) i len have "matchCondition env parent (cs ! i) = Inr x"
    by (metis nth_map)
  then show ?thesis using matchCondition_is_exists [of env parent "cs ! i" "fst x" "snd x"] by simp
qed

lemma selectQuery_where:
  assumes "selectQuery env body = Inr q"
  shows "\<exists>filters cls. parseFilter body = Inr filters
     \<and> map (matchCondition env Product) filters = map Inr cls
     \<and> q = (createQueryBuilder Product)\<lparr>qb_where := map fst cls\<rparr>"
proof -
  from assms obtain filters q' lg where f: "parseFilter body = Inr filters"
    and a: "addMatches env filters ((createQueryBuilder Product)\<lparr>qb_select := SelectAll\<rparr>) Product
              = Inr (q', lg)" and q: "q = q'"
    by (auto simp: selectQuery_def Let_def split: sum.splits prod.splits)
  from addMatches_conditions [OF a] q f show ?thesis
    by (auto simp: createQueryBuilder_def)
qed

lemma countQuery_where:
  assumes "countQuery env body obsolete = Inr q"
  shows "\<exists>filters cls. parseFilter (if isNullish body then JObj [] else body) = Inr filters
     \<and> map (matchCondition env Product) filters = map Inr cls
     \<and> q = (createQueryBuilder Product)
              \<lparr>qb_select := SelectCount, qb_where := Raw (obsoleteWhere obsolete) # map fst cls\<rparr>"
proof -
  from assms obtain filters q' lg where
    f: "parseFilter (if isNullish body then JObj [] else body) = Inr filters"
    and a: "addMatches env filters ((createQueryBuilder Product)
              \<lparr>qb_select := SelectCount, qb_where := [Raw (obsoleteWhere obsolete)]\<rparr>) Product
              = Inr (q', lg)" and q: "q = q'"
    by (auto simp: countQuery_def Let_def split: sum.splits prod.splits)
  from addMatches_conditions [OF a] q f show ?thesis
    by (auto simp: createQueryBuilder_def)
qed

lemma aggregateStatement_where:
  assumes "aggregateStatement env body obsolete = Inr (tag, st)"
  shows "\<exists>match grp cnt entity column filters cls q.
       stageValue body ''$match'' = Inr match \<and> stageValue body ''$group'' = Inr grp
     \<and> someStage body ''$count'' = Inr cnt
     \<and> groupTag grp = Inr tag \<and> getEntityAndColumn env tag = Inr (entity, column)
     \<and> parseFilter match = Inr filters
     \<and> map (matchCondition env entity) filters = map Inr cls
     \<and> qb_entity q = entity
     \<and> qb_where q = Raw (obsoleteWhere obsolete) # map fst cls
     \<and> st = (if cnt then CountDistinct q column else Grouped q column)"
proof -
  from assms obtain match grp cnt limit skip entity column filters q' lg where
    s: "stageValue body ''$match'' = Inr match" "stageValue body ''$group'' = Inr grp"
       "someStage body ''$count'' = Inr cnt" "stageValue body ''$limit'' = Inr limit"
       "stageValue body ''$skip'' = Inr skip"
       "groupTag grp = Inr tag" "getEntityAndColumn env tag = Inr (entity, column)"
       "parseFilter match = Inr filters"
    and a: "addMatches env filters ((createQueryBuilder entity)
                   \<lparr>qb_select := (if \<not> cnt then SelectGroupCount column else SelectDistinct column),
                    qb_where := [Raw (obsoleteWhere obsolete)]\<rparr>) entity = Inr (q', lg)"
    and st: "st = (if cnt then CountDistinct q' column
              else Grouped
                     (q'\<lparr>qb_groupBy := Some column, qb_orderBy := Some (''2'', ''DESC''),
                         qb_limit := (if truthy limit then Some limit else None),
                         qb_offset := (if truthy skip then Some skip else None)\<rparr>) column)"
    by (auto simp: aggregateStatement_def Let_def split: sum.splits prod.splits if_splits)
  from addMatches_conditions [OF a] obtain cls where
    cls: "map (matchCondition env entity) filters = map Inr cls"
    and q': "q' = ((createQueryBuilder entity)
                   \<lparr>qb_select := (if \<not> cnt then SelectGroupCount column else SelectDistinct column),
                    qb_where := [Raw (obsoleteWhere obsolete)]\<rparr>)
                 \<lparr>qb_where := [Raw (obsoleteWhere obsolete)] @ map fst cls\<rparr>"
    by auto
  show ?thesis
  proof (cases cnt)
    case True
    with s cls q' st show ?thesis
      by (intro exI [of _ match] exI [of _ grp] exI [of _ cnt] exI [of _ entity]
          exI [of _ column] exI [of _ filters] exI [of _ cls] exI [of _ q'])
         (simp add: createQueryBuilder_def)
  next
    case False
    with s cls q' st show ?thesis
      by (intro exI [of _ match] exI [of _ grp] exI [of _ cnt] exI [of _ entity]
          exI [of _ column] exI [of _ filters] exI [of _ cls]
          exI [of _ "q'\<lparr>qb_groupBy := Some column, qb_orderBy := Some (''2'', ''DESC''),
                         qb_limit := (if truthy limit then Some limit else None),
                         qb_offset := (if truthy skip then Some skip else None)\<rparr>"])
         (simp add: createQueryBuilder_def)
  qed
qed

lemma addMatches_complete:
  "map (matchCondition env parent) cs = map Inr cls \<Longrightarrow>
   addMatches env cs q parent = Inr (q\<lparr>qb_where := qb_where q @ map fst cls\<rparr>, map snd cls)"
proof (induction cs arbitrary: q cls)
  case Nil
  then show ?case by simp
next
  case (Cons c cs)
  from Cons.prems obtain x xs where cls: "cls = x # xs"
    and c: "matchCondition env parent c = Inr x"
    and r: "map (matchCondition env parent) cs = map Inr xs"
    by (cases cls) auto
  from Cons.IH [OF r, of "andWhere q (fst x)"] c cls show ?case
    by (cases x) (simp add: andWhere_def)
qed

lemma holds_not_obsolete:
  "holds db r (Raw (obsoleteWhere False)) = (cell r ''obsolete'' = JBool False)"
  by (simp add: obsoleteWhere_def)

section \<open>Properties of the cursor loop\<close>

lemma indexOf_Some: "indexOf xs x = Some k \<Longrightarrow> k < length xs \<and> xs ! k = x"
  by (induction xs arbitrary: k) (auto split: if_splits)

lemma indexOf_mem: "x \<in> set xs \<Longrightarrow> \<exists>k. indexOf xs x = Some k"
  by (induction xs) auto

lemma indexOf_None: "indexOf xs x = None \<Longrightarrow> x \<notin> set xs"
  by (induction xs) (auto split: if_splits)

lemma recordOf_snoc:
  "recordOf (seen @ [d]) c =
     (case recordOf seen c of
        Some x \<Rightarrow> Some x
      | None \<Rightarrow> if getProp d ''code'' = JStr c then Some d else None)"
  unfolding recordOf_def by (induction seen) auto

lemma recordOf_fresh:
  "getProp d ''code'' \<notin> (\<lambda>d. getProp d ''code'') ` set seen \<Longrightarrow> getProp d ''code'' = JStr c \<Longrightarrow>
   recordOf seen c = None"
  unfolding recordOf_def by (induction seen) auto

lemma byRank_step:
  assumes codes: "distinct codes"
    and inv: "byRank codes seen acc"
    and k: "indexOf (map JStr codes) (getProp d ''code'') = Some k"
    and fresh: "getProp d ''code'' \<notin> (\<lambda>d. getProp d ''code'') ` set seen"
  shows "byRank codes (seen @ [d]) (placeAt acc k d)"
proof -
  from indexOf_Some [OF k] have kl: "k < length codes" and ck: "getProp d ''code'' = JStr (codes ! k)"
    by auto
  from recordOf_fresh [OF fresh ck] have none: "recordOf seen (codes ! k) = None" .
  have other: "recordOf (seen @ [d]) (codes ! i) = recordOf seen (codes ! i)"
    if "i < length codes" "i \<noteq> k" for i
  proof -
    from codes that kl have "codes ! i \<noteq> codes ! k" by (simp add: nth_eq_iff_index_eq)
    with ck show ?thesis by (simp add: recordOf_snoc split: option.splits)
  qed
  have this_one: "recordOf (seen @ [d]) (codes ! k) = Some d"
    using none ck by (simp add: recordOf_snoc)
  from inv have len: "length acc \<le> length codes"
    and filled: "\<And>i. i < length acc \<Longrightarrow> acc ! i = recordOf seen (codes ! i)"
    and beyond: "\<And>i. length acc \<le> i \<Longrightarrow> i < length codes \<Longrightarrow> recordOf seen (codes ! i) = None"
    and lst: "acc \<noteq> [] \<Longrightarrow> last acc \<noteq> None"
    by (auto simp: byRank_def)
  show ?thesis
  proof (cases "k < length acc")
    case True
    then have p: "placeAt acc k d = acc[k := Some d]" by (simp add: placeAt_def)
    from True have ne: "acc \<noteq> []" by auto
    then have la: "last (acc[k := Some d]) = (acc[k := Some d]) ! (length acc - 1)"
      by (simp add: last_conv_nth)
    have "last (acc[k := Some d]) \<noteq> None"
    proof (cases "k = length acc - 1")
      case True
      with \<open>k < length acc\<close> la show ?thesis by simp
    next
      case False
      with la have "last (acc[k := Some d]) = acc ! (length acc - 1)" by simp
      also have "\<dots> = last acc" using ne by (simp add: last_conv_nth)
      finally show ?thesis using lst [OF ne] by simp
    qed
    with True len filled beyond other this_one show ?thesis
      unfolding byRank_def p by (auto simp: nth_list_update)
  next
    case False
    then have p: "placeAt acc k d = acc @ replicate (k - length acc) None @ [Some d]"
      by (simp add: placeAt_def)
    have l: "length (placeAt acc k d) = Suc k" using False by (simp add: p)
    have n: "placeAt acc k d ! i = recordOf (seen @ [d]) (codes ! i)" if "i < Suc k" for i
    proof (cases "i = k")
      case True
      with False this_one show ?thesis by (simp add: p nth_append)
    next
      case ne: False
      with that have ik: "i < k" by simp
      with kl have il: "i < length codes" by simp
      show ?thesis
      proof (cases "i < length acc")
        case True
        with filled other [OF il ne] show ?thesis by (simp add: p nth_append)
      next
        case False
        with beyond il other [OF il ne] ik show ?thesis by (simp add: p nth_append)
      qed
    qed
    have b: "recordOf (seen @ [d]) (codes ! i) = None" if "Suc k \<le> i" "i < length codes" for i
      using that other [of i] beyond [of i] False by simp
    show ?thesis
      unfolding byRank_def using l n b kl by (auto simp: p)
  qed
qed

lemma collect_byRank:
  assumes "distinct codes"
  shows "\<forall>d \<in> set docs. truthy d \<and> (\<exists>c \<in> set codes. getProp d ''code'' = JStr c) \<Longrightarrow>
     distinct (map (\<lambda>d. getProp d ''code'') (seen @ docs)) \<Longrightarrow>
     byRank codes seen acc \<Longrightarrow>
     byRank codes (seen @ docs) (collect codes docs acc)"
proof (induction docs arbitrary: seen acc)
  case Nil
  then show ?case by simp
next
  case (Cons d docs)
  from Cons.prems(1) obtain c where t: "truthy d" and c: "c \<in> set codes"
    and dc: "getProp d ''code'' = JStr c" by auto
  from c have "JStr c \<in> set (map JStr codes)" by simp
  from indexOf_mem [OF this] dc obtain k where
    k: "indexOf (map JStr codes) (getProp d ''code'') = Some k" by auto
  from Cons.prems(2) have fresh: "getProp d ''code'' \<notin> (\<lambda>d. getProp d ''code'') ` set seen"
    by auto
  have step: "byRank codes (seen @ [d]) (placeAt acc k d)"
    by (rule byRank_step [OF assms Cons.prems(3) k fresh])
  have "byRank codes ((seen @ [d]) @ docs) (collect codes docs (placeAt acc k d))"
  proof (rule Cons.IH)
    show "\<forall>d \<in> set docs. truthy d \<and> (\<exists>c \<in> set codes. getProp d ''code'' = JStr c)"
      using Cons.prems(1) by simp
    show "distinct (map (\<lambda>d. getProp d ''code'') ((seen @ [d]) @ docs))"
      using Cons.prems(2) by simp
    show "byRank codes (seen @ [d]) (placeAt acc k d)" by (rule step)
  qed
  with t k show ?case by simp
qed

section \<open>Properties of ingestion\<close>

lemma fold_max_ge: "a \<le> fold max ids (a :: nat)" "x \<in> set ids \<Longrightarrow> x \<le> fold max ids a"
proof -
  show "a \<le> fold max ids a" by (induction ids arbitrary: a) (auto intro: order_trans [OF max.cobounded2])
  show "x \<in> set ids \<Longrightarrow> x \<le> fold max ids a"
  proof (induction ids arbitrary: a)
    case Nil then show ?case by simp
  next
    case (Cons y ids)
    show ?case
    proof (cases "x = y")
      case True
      have "y \<le> max y a" by simp
      also have "\<dots> \<le> fold max ids (max y a)"
        by (induction ids arbitrary: a y) (auto intro: order_trans [OF max.cobounded2])
      finally show ?thesis using True by simp
    next
      case False
      with Cons show ?thesis by simp
    qed
  qed
qed

lemma nextId_fresh: "nextId ids \<notin> set ids"
  using fold_max_ge(2) [of "nextId ids" ids 0] by (auto simp: nextId_def)

lemma find_map_preserve:
  "(\<And>x. P (f x) = P x) \<Longrightarrow> List.find P (map f xs) = map_option f (List.find P xs)"
  by (induction xs) auto

lemma find_append_left:
  "List.find P xs = Some x \<Longrightarrow> List.find P (xs @ ys) = Some x"
  by (induction xs) (auto split: if_splits)

lemma find_append_none:
  "List.find P xs = None \<Longrightarrow> List.find P (xs @ ys) = List.find P ys"
  by (induction xs) (auto split: if_splits)

lemma insertUpdate_key:
  "insertUpdate us u = (if updateKey u \<in> updateKey ` set us then us else us @ [u])"
proof -
  have "list_ex (\<lambda>x. pu_product_id x = pu_product_id u \<and> pu_revision x = pu_revision u) us
      = (\<exists>x \<in> set us. updateKey x = updateKey u)"
    by (simp add: list_ex_iff updateKey_def)
  also have "\<dots> = (updateKey u \<in> updateKey ` set us)" by (metis image_iff)
  finally show ?thesis by (simp add: insertUpdate_def)
qed

lemma insertUpdate_distinct:
  "distinct (map updateKey us) \<Longrightarrow> distinct (map updateKey (insertUpdate us u))"
  by (simp add: insertUpdate_key)

lemma insertUpdate_has: "updateKey u \<in> updateKey ` set (insertUpdate us u)"
  by (simp add: insertUpdate_key)

lemma insertUpdate_keeps: "set us \<subseteq> set (insertUpdate us u)"
  by (auto simp: insertUpdate_key)

lemma insertUpdate_noop: "updateKey u \<in> updateKey ` set us \<Longrightarrow> insertUpdate us u = us"
  by (simp add: insertUpdate_key)

lemma advance_fields [simp]:
  "product_id (advance c n p) = product_id p"
  "product_code (advance c n p) = product_code p"
  "product_owners_tags (advance c n p) = product_owners_tags p"
  by (simp_all add: advance_def)

lemma findProduct_advance:
  "findProduct (map (advance c n) ps) c' = map_option (advance c n) (findProduct ps c')"
  unfolding findProduct_def by (rule find_map_preserve) simp

lemma findProduct_mem: "findProduct ps c = None \<Longrightarrow> c \<notin> product_code ` set ps"
  unfolding findProduct_def by (induction ps) (auto split: if_splits)

lemma ensured_keeps: "findProduct ps c' = Some p \<Longrightarrow> findProduct (ensured ps c) c' = Some p"
  by (simp add: ensured_def findProduct_def find_append_left split: option.splits)

lemma ensured_found: "\<exists>p. findProduct (ensured ps c) c = Some p"
  by (cases "findProduct ps c")
     (simp_all add: ensured_def findProduct_def find_append_none)

lemma ensured_existing: "findProduct ps c = Some p \<Longrightarrow> ensured ps c = ps"
  by (simp add: ensured_def)

lemma ensured_distinct:
  assumes "distinct (map product_id ps)" and "distinct (map product_code ps)"
  shows "distinct (map product_id (ensured ps c)) \<and> distinct (map product_code (ensured ps c))"
proof (cases "findProduct ps c")
  case None
  from findProduct_mem [OF None] have "c \<notin> set (map product_code ps)" by simp
  with None assms nextId_fresh [of "map product_id ps"] show ?thesis
    by (simp add: ensured_def)
next
  case (Some p)
  with assms show ?thesis by (simp add: ensured_def)
qed

lemma resolveProduct_ensured:
  "resolveProduct ps c r =
     (case r of Some n \<Rightarrow> map (advance c n) (ensured ps c) | None \<Rightarrow> ensured ps c,
      product_id (the (findProduct (ensured ps c) c)),
      case r of Some n \<Rightarrow> n | None \<Rightarrow> product_revision (the (findProduct (ensured ps c) c)))"
proof -
  obtain p where p: "findProduct (ensured ps c) c = Some p" using ensured_found by blast
  have adv: "advance c n =
      (\<lambda>p. if product_code p = c then p\<lparr>product_revision := max (product_revision p) n\<rparr>
            else p)" for n
    by (rule ext) (simp add: advance_def)
  have "resolveProduct ps c r =
     (let ps1 = ensured ps c;
          i = (case findProduct ps1 c of Some p \<Rightarrow> product_id p | None \<Rightarrow> 0);
          stored = (case findProduct ps1 c of Some p \<Rightarrow> product_revision p | None \<Rightarrow> 0)
      in case r of
           Some n \<Rightarrow> (map (advance c n) ps1, i, n)
         | None \<Rightarrow> (ps1, i, stored))"
    unfolding resolveProduct_def ensured_def adv by (rule refl)
  with p show ?thesis by (simp add: Let_def split: option.splits)
qed

lemma resolveProduct_stable:
  assumes "findProduct ps c' = Some p"
  shows "\<exists>p'. findProduct (fst (resolveProduct ps c r)) c' = Some p'
     \<and> product_id p' = product_id p \<and> product_owners_tags p' = product_owners_tags p"
proof (cases r)
  case None
  with ensured_keeps [OF assms, of c] show ?thesis by (simp add: resolveProduct_ensured)
next
  case (Some n)
  with ensured_keeps [OF assms, of c] show ?thesis
    by (simp add: resolveProduct_ensured findProduct_advance)
qed

lemma resolveProduct_found:
  "\<exists>p. findProduct (fst (resolveProduct ps c r)) c = Some p
     \<and> product_id p = fst (snd (resolveProduct ps c r))"
proof -
  obtain p where p: "findProduct (ensured ps c) c = Some p" using ensured_found by blast
  then show ?thesis
    by (cases r) (simp_all add: resolveProduct_ensured findProduct_advance)
qed

lemma resolveProduct_revision:
  "snd (snd (resolveProduct ps c (Some n))) = n"
  by (simp add: resolveProduct_ensured)

lemma resolveProduct_distinct:
  assumes "distinct (map product_id ps)" and "distinct (map product_code ps)"
  shows "distinct (map product_id (fst (resolveProduct ps c r)))
       \<and> distinct (map product_code (fst (resolveProduct ps c r)))"
proof -
  have i: "map product_id (map (advance c n) xs) = map product_id xs"
    and k: "map product_code (map (advance c n) xs) = map product_code xs" for n xs
    by simp_all
  from ensured_distinct [OF assms, of c] show ?thesis
    by (cases r) (simp_all only: resolveProduct_ensured fst_conv option.case i k)
qed

lemma resolveProduct_owners:
  assumes "findProduct ps c = Some p"
  shows "map_option product_owners_tags
           (List.find (\<lambda>p. product_id p = i) (fst (resolveProduct ps c r))) =
         map_option product_owners_tags (List.find (\<lambda>p. product_id p = i) ps)"
proof (cases r)
  case None
  with ensured_existing [OF assms] show ?thesis by (simp add: resolveProduct_ensured)
next
  case (Some n)
  have "List.find (\<lambda>p. product_id p = i) (map (advance c n) ps) =
      map_option (advance c n) (List.find (\<lambda>p. product_id p = i) ps)"
    by (rule find_map_preserve) simp
  with Some ensured_existing [OF assms] show ?thesis
    by (simp add: resolveProduct_ensured option.map_comp comp_def)
qed

text \<open>The two tables that one event changes.\<close>

lemma ingestEvent_products:
  "products (fst (ingestEvent now suppress s e)) =
     fst (resolveProduct (products s) (msg_code (ev_message e)) (msg_rev (ev_message e)))"
  by (simp add: ingestEvent_def sanitize_def Let_def split: prod.splits)

lemma ingestEvent_updates:
  "\<exists>u. product_updates (fst (ingestEvent now suppress s e)) = insertUpdate (product_updates s) u
     \<and> updateKey u =
         snd (resolveProduct (products s) (msg_code (ev_message e)) (msg_rev (ev_message e)))"
  by (auto simp: ingestEvent_def sanitize_def Let_def updateKey_def split: prod.splits)

lemma constraints_keys:
  "constraints s =
     (distinct (map product_id (products s)) \<and> distinct (map product_code (products s))
      \<and> distinct (map updateKey (product_updates s)))"
proof -
  have "(\<lambda>u. (pu_product_id u, pu_revision u)) = updateKey"
    by (rule ext) (simp add: updateKey_def)
  then show ?thesis by (simp add: constraints_def)
qed

lemma ingestEvent_constraints:
  "constraints s \<Longrightarrow> constraints (fst (ingestEvent now suppress s e))"
  using ingestEvent_updates [of now suppress s e]
  by (auto simp: constraints_keys ingestEvent_products resolveProduct_distinct
      insertUpdate_distinct)

lemma ingestEvent_idOf:
  assumes "idOf s c = Some i"
  shows "idOf (fst (ingestEvent now suppress s e)) c = Some i"
proof -
  from assms obtain p where p: "findProduct (products s) c = Some p" and i: "product_id p = i"
    by (auto simp: idOf_def)
  from resolveProduct_stable [OF p] i show ?thesis
    by (fastforce simp: idOf_def ingestEvent_products)
qed

lemma ingestEvent_keeps_keys:
  "updateKey ` set (product_updates s)
     \<subseteq> updateKey ` set (product_updates (fst (ingestEvent now suppress s e)))"
  using ingestEvent_updates [of now suppress s e] insertUpdate_keeps by fastforce

lemma ingestEvent_keeps_recorded:
  assumes "recorded s c r"
  shows "recorded (fst (ingestEvent now suppress s e)) c r"
proof -
  from assms obtain i where i: "idOf s c = Some i"
    and k: "(i, r) \<in> updateKey ` set (product_updates s)"
    by (auto simp: recorded_def)
  from ingestEvent_idOf [OF i] ingestEvent_keeps_keys k show ?thesis
    unfolding recorded_def by blast
qed

lemma ingestEvent_records:
  assumes "msg_rev (ev_message e) = Some r"
  shows "recorded (fst (ingestEvent now suppress s e)) (msg_code (ev_message e)) r"
proof -
  let ?c = "msg_code (ev_message e)"
  let ?res = "resolveProduct (products s) ?c (Some r)"
  from ingestEvent_updates [of now suppress s e] assms obtain u where
    u: "product_updates (fst (ingestEvent now suppress s e)) = insertUpdate (product_updates s) u"
    and ku: "updateKey u = snd ?res"
    by auto
  from resolveProduct_found [of "products s" ?c "Some r"] obtain p where
    p: "findProduct (fst ?res) ?c = Some p" and ip: "product_id p = fst (snd ?res)"
    by blast
  from ku ip have "updateKey u = (product_id p, r)"
    by (simp add: resolveProduct_revision prod_eq_iff)
  with insertUpdate_has [of u "product_updates s"] u
  have "(product_id p, r) \<in> updateKey ` set (product_updates (fst (ingestEvent now suppress s e)))"
    by simp
  moreover from p assms have "idOf (fst (ingestEvent now suppress s e)) ?c = Some (product_id p)"
    by (simp add: idOf_def ingestEvent_products)
  ultimately show ?thesis unfolding recorded_def by blast
qed

lemma ingest_fst:
  "fst (ingest now suppress s (e # es)) =
     fst (ingest now suppress (fst (ingestEvent now suppress s e)) es)"
  by (simp split: prod.splits)

lemma ingest_constraints:
  "constraints s \<Longrightarrow> constraints (fst (ingest now suppress s es))"
proof (induction es arbitrary: s)
  case Nil then show ?case by simp
next
  case (Cons e es)
  from Cons.IH [OF ingestEvent_constraints [OF Cons.prems]] show ?case
    by (simp only: ingest_fst)
qed

lemma ingest_keeps_recorded:
  "recorded s c r \<Longrightarrow> recorded (fst (ingest now suppress s es)) c r"
proof (induction es arbitrary: s)
  case Nil then show ?case by simp
next
  case (Cons e es)
  from Cons.IH [OF ingestEvent_keeps_recorded [OF Cons.prems]] show ?case
    by (simp only: ingest_fst)
qed

lemma ingest_records:
  "e \<in> set es \<Longrightarrow> msg_rev (ev_message e) = Some r \<Longrightarrow>
   recorded (fst (ingest now suppress s es)) (msg_code (ev_message e)) r"
proof (induction es arbitrary: s)
  case Nil then show ?case by simp
next
  case (Cons x es)
  show ?case
  proof (cases "e = x")
    case True
    from ingest_keeps_recorded [OF ingestEvent_records [OF Cons.prems(2)]] True show ?thesis
      by (simp only: ingest_fst)
  next
    case False
    with Cons.prems have "e \<in> set es" by simp
    from Cons.IH [OF this Cons.prems(2)] show ?thesis by (simp only: ingest_fst)
  qed
qed

lemma deliver_constraints: "constraints s \<Longrightarrow> constraints (deliver s batches)"
proof (induction batches arbitrary: s)
  case Nil then show ?case by simp
next
  case (Cons b batches)
  obtain now suppress es where b: "b = (now, suppress, es)" by (cases b)
  from Cons.IH [OF ingest_constraints [OF Cons.prems]] b show ?case by simp
qed

lemma deliver_keeps_recorded: "recorded s c r \<Longrightarrow> recorded (deliver s batches) c r"
proof (induction batches arbitrary: s)
  case Nil then show ?case by simp
next
  case (Cons b batches)
  obtain now suppress es where b: "b = (now, suppress, es)" by (cases b)
  from Cons.IH [OF ingest_keeps_recorded [OF Cons.prems]] b show ?case by simp
qed

lemma deliver_records:
  "(now, suppress, es) \<in> set batches \<Longrightarrow> e \<in> set es \<Longrightarrow> msg_rev (ev_message e) = Some r \<Longrightarrow>
   recorded (deliver s batches) (msg_code (ev_message e)) r"
proof (induction batches arbitrary: s)
  case Nil then show ?case by simp
next
  case (Cons b batches)
  obtain now' suppress' es' where b: "b = (now', suppress', es')" by (cases b)
  show ?case
  proof (cases "(now, suppress, es) = b")
    case True
    with b have "recorded (fst (ingest now' suppress' s es')) (msg_code (ev_message e)) r"
      using ingest_records [OF Cons.prems(2,3)] by simp
    from deliver_keeps_recorded [OF this] b show ?thesis by simp
  next
    case False
    with Cons.prems(1) have "(now, suppress, es) \<in> set batches" by auto
    from Cons.IH [OF this Cons.prems(2,3)] b show ?thesis by simp
  qed
qed

lemma one_of_key:
  "distinct (map f xs) \<Longrightarrow> k \<in> f ` set xs \<Longrightarrow> length (filter (\<lambda>x. f x = k) xs) = 1"
proof (induction xs)
  case Nil then show ?case by simp
next
  case (Cons x xs)
  show ?case
  proof (cases "f x = k")
    case True
    from Cons.prems(1) have "f x \<notin> f ` set xs" by simp
    then have "\<forall>y \<in> set xs. f y \<noteq> f x" by (metis imageI)
    with True have "filter (\<lambda>x. f x = k) xs = []"
      by (simp add: filter_empty_conv)
    with True show ?thesis by simp
  next
    case False
    with Cons show ?thesis by auto
  qed
qed

lemma recorded_once:
  assumes "constraints s" and "recorded s c r"
  shows "length (updatesOf s c r) = 1"
proof -
  from assms(2) obtain i where i: "idOf s c = Some i"
    and k: "(i, r) \<in> updateKey ` set (product_updates s)"
    by (auto simp: recorded_def)
  have "updatesOf s c r = filter (\<lambda>u. updateKey u = (i, r)) (product_updates s)"
    using i by (auto simp: updatesOf_def idOf_def updateKey_def intro: filter_cong)
  with one_of_key [OF _ k] assms(1) show ?thesis by (simp add: constraints_keys)
qed

lemma reingest_noop:
  assumes "recorded s (msg_code (ev_message e)) r" and "msg_rev (ev_message e) = Some r"
  shows "product_updates (fst (ingestEvent now suppress s e)) = product_updates s"
    and "update_count (fst (ingestEvent now suppress s e)) owner ut = update_count s owner ut"
proof -
  let ?c = "msg_code (ev_message e)"
  let ?res = "resolveProduct (products s) ?c (Some r)"
  from assms(1) obtain i where i: "idOf s ?c = Some i"
    and k: "(i, r) \<in> updateKey ` set (product_updates s)"
    by (auto simp: recorded_def)
  from i obtain p0 where p0: "findProduct (products s) ?c = Some p0" by (auto simp: idOf_def)
  from ingestEvent_updates [of now suppress s e] assms(2) obtain u where
    u: "product_updates (fst (ingestEvent now suppress s e)) = insertUpdate (product_updates s) u"
    and ku: "updateKey u = snd ?res"
    by auto
  from resolveProduct_found [of "products s" ?c "Some r"] obtain p where
    p: "findProduct (fst ?res) ?c = Some p" and ip: "product_id p = fst (snd ?res)"
    by blast
  from ingestEvent_idOf [OF i, of now suppress e] p assms(2) have "product_id p = i"
    by (simp add: idOf_def ingestEvent_products)
  with ku ip have "updateKey u = (i, r)" by (simp add: resolveProduct_revision prod_eq_iff)
  with k u show a: "product_updates (fst (ingestEvent now suppress s e)) = product_updates s"
    by (simp add: insertUpdate_noop)
  have "ownerOf (fst (ingestEvent now suppress s e)) j = ownerOf s j" for j
    using resolveProduct_owners [OF p0, of j "msg_rev (ev_message e)"]
    by (auto simp: ownerOf_def ingestEvent_products split: option.splits)
  with a show "update_count (fst (ingestEvent now suppress s e)) owner ut = update_count s owner ut"
    by (simp add: update_count_def)
qed

section \<open>The claims\<close>

text \<open>
  C8. Filter normalisation is flattening. In any filter object, a \<open>$and\<close> entry whose
  value is an array of sub-filters contributes the concatenation of the clause lists of
  its sub-filters, between the clauses of the entries before it and after it; an entry
  \<open>t: {$all: [v1, ..., vk]}\<close> of a tag \<open>t\<close> contributes the \<open>k\<close> clauses
  \<open>(t, v1), ..., (t, vk)\<close>; an exception in any part is the exception of the whole.
  Whenever \<open>parseFilter\<close> returns, on any input, its result is a list of (tag, value)
  pairs in which no conjunction marker is left; and \<open>addMatches\<close> turns a list of
  clauses into as many conditions, which the builder joins with AND.
\<close>

theorem parseFilter_flattens:
  "parseFilter (JObj (pre @ (''$and'', JArr subs) # post)) =
     concat_all [parseFilter (JObj pre), concat_all (map parseFilter subs),
                 parseFilter (JObj post)]
   \<and> (t \<noteq> ''$and'' \<longrightarrow>
        parseFilter (JObj (pre @ (t, JObj [(''$all'', JArr vs)]) # post)) =
          concat_all [parseFilter (JObj pre), Inr (map (\<lambda>v. (t, v)) vs),
                      parseFilter (JObj post)])
   \<and> (\<forall>cs. parseFilter m = Inr cs \<longrightarrow> (\<forall>(k, v) \<in> set cs. k \<noteq> ''$and''))
   \<and> (\<forall>cs q' lg. addMatches env cs q parent = Inr (q', lg) \<longrightarrow>
        length (qb_where q') = length (qb_where q) + length cs)"
proof (intro conjI impI allI)
  show "parseFilter (JObj (pre @ (''$and'', JArr subs) # post)) =
     concat_all [parseFilter (JObj pre), concat_all (map parseFilter subs),
                 parseFilter (JObj post)]"
    by (rule parseFilter_and_entry)
next
  assume "t \<noteq> ''$and''"
  then show "parseFilter (JObj (pre @ (t, JObj [(''$all'', JArr vs)]) # post)) =
          concat_all [parseFilter (JObj pre), Inr (map (\<lambda>v. (t, v)) vs),
                      parseFilter (JObj post)]"
    by (rule parseFilter_all_entry)
next
  fix cs assume "parseFilter m = Inr cs"
  then show "\<forall>(k, v) \<in> set cs. k \<noteq> ''$and''"
    using parseFilter_no_and by blast
next
  fix cs q' lg assume a: "addMatches env cs q parent = Inr (q', lg)"
  from addMatches_conditions [OF a] obtain cls where
    "map (matchCondition env parent) cs = map Inr cls"
    "q' = q\<lparr>qb_where := qb_where q @ map fst cls\<rparr>" by blast
  moreover from this(1) have "length cls = length cs" by (metis length_map)
  ultimately show "length (qb_where q') = length (qb_where q) + length cs" by simp
qed

theorem parseFilter_flattens_witness:
  "''brands_tags'' \<noteq> ''$and''
   \<and> parseFilter (JObj [(''brands_tags'', JObj [(''$all'', JArr [JStr ''a'', JStr ''b''])])])
       = Inr [(''brands_tags'', JStr ''a''), (''brands_tags'', JStr ''b'')]
   \<and> parseFilter (JObj [(''$and'', JArr [JObj [(''code'', JStr ''1'')],
                                          JObj [(''brands_tags'', JStr ''a'')]])])
       = Inr [(''code'', JStr ''1''), (''brands_tags'', JStr ''a'')]
   \<and> ''code'' \<noteq> ''$and''"
proof -
  have p: "parseFilter (JObj [(''$and'', JArr [JObj [(''code'', JStr ''1'')],
                                               JObj [(''brands_tags'', JStr ''a'')]])])
       = Inr [(''code'', JStr ''1''), (''brands_tags'', JStr ''a'')]"
    by code_simp
  have e: "parseFilter (JObj []) = Inr []" by code_simp
  note t = parseFilter_flattens [of "[]" "[]" "[]" "''brands_tags''" "[JStr ''a'', JStr ''b'']"
      "JObj [(''$and'', JArr [JObj [(''code'', JStr ''1'')],
                              JObj [(''brands_tags'', JStr ''a'')]])]"]
  from t p e show ?thesis by simp
qed

text \<open>
  C6. For every non-empty list \<open>L\<close> and tag \<open>t\<close>, the clause \<open>(t, {$nin: L})\<close>
  compiles to what \<open>(t, {$in: L})\<close> compiles to with the negation flag flipped:
  the same sub-query under \<open>NOT EXISTS\<close> instead of \<open>EXISTS\<close> (or the reverse,
  when an absence value in \<open>L\<close> flips the flag once more), the same exception when the
  tag does not resolve or a listed value is refused. It holds in \<open>addMatches\<close> and in
  \<open>getFilterSql\<close>, and needs nothing of \<open>L\<close> but that it is not empty.
\<close>

theorem nin_is_negated_in:
  "L \<noteq> [] \<Longrightarrow>
   matchCondition env parent (t, JObj [(''$nin'', JArr L)]) =
     map_sum id (\<lambda>(c, (tag, n, v)). (flipCond c, (tag, \<not> n, v)))
       (matchCondition env parent (t, JObj [(''$in'', JArr L)]))
   \<and> filterSqlClause env parent (t, JObj [(''$nin'', JArr L)]) =
     map_sum id (\<lambda>c. c\<lparr>sql_not := \<not> sql_not c\<rparr>)
       (filterSqlClause env parent (t, JObj [(''$in'', JArr L)]))"
proof -
  assume L: "L \<noteq> []"
  have u: "unwrapped (JObj [(op, JArr L)]) = JObj [(op, JArr L)]"
    if "op = ''$in'' \<or> op = ''$nin''" for op
    using that by (auto simp: unwrapped_def getOptional_def)
  have ne: "\<not> truthy (getOptional (JObj [(op, JArr L)]) ''$ne'')"
    if "op = ''$in'' \<or> op = ''$nin''" for op
    using that by (auto simp: getOptional_def)
  have a: "whereOperand ent (JObj [(''$nin'', JArr L)]) =
      scanValues ent L (\<not> False, JObj [(''$in'', JArr L)])" for ent
    using whereOperand_list [of "''$nin''" "JObj [(''$nin'', JArr L)]" L ent] u ne L by simp
  have b: "whereOperand ent (JObj [(''$in'', JArr L)]) =
      scanValues ent L (False, JObj [(''$in'', JArr L)])" for ent
    using whereOperand_list [of "''$in''" "JObj [(''$in'', JArr L)]" L ent] u ne L by simp
  have w: "whereOperand ent (JObj [(''$nin'', JArr L)]) =
      map_sum id (\<lambda>(n', v). (\<not> n', v)) (whereOperand ent (JObj [(''$in'', JArr L)]))" for ent
    unfolding a b by (rule scanValues_flip)
  show ?thesis
  proof
    show "matchCondition env parent (t, JObj [(''$nin'', JArr L)]) =
     map_sum id (\<lambda>(c, (tag, n, v)). (flipCond c, (tag, \<not> n, v)))
       (matchCondition env parent (t, JObj [(''$in'', JArr L)]))"
      by (cases "getEntityAndColumn env t")
         (auto simp: matchCondition_def w Let_def split: sum.splits prod.splits)
    show "filterSqlClause env parent (t, JObj [(''$nin'', JArr L)]) =
     map_sum id (\<lambda>c. c\<lparr>sql_not := \<not> sql_not c\<rparr>)
       (filterSqlClause env parent (t, JObj [(''$in'', JArr L)]))"
      by (cases "getEntityAndColumn env t")
         (auto simp: filterSqlClause_def w Let_def split: sum.splits prod.splits)
  qed
qed

theorem nin_is_negated_in_witness:
  "[JStr ''a''] \<noteq> []
   \<and> matchCondition example_env Product (''brands_tags'', JObj [(''$in'', JArr [JStr ''a''])]) =
     Inr (Exists False
            \<lparr>sub_entity = Entity ''ProductBrandsTag'',
             sub_where = [(Column ''pt2'' ''product_id'', Ref (Column ''pt'' ''id'')),
                          (Column ''pt2'' ''value'', Val (JObj [(''$in'', JArr [JStr ''a''])]))]\<rparr>,
          (''brands_tags'', False, JObj [(''$in'', JArr [JStr ''a''])]))
   \<and> matchCondition example_env Product (''brands_tags'', JObj [(''$nin'', JArr [JStr ''a''])]) =
     Inr (Exists True
            \<lparr>sub_entity = Entity ''ProductBrandsTag'',
             sub_where = [(Column ''pt2'' ''product_id'', Ref (Column ''pt'' ''id'')),
                          (Column ''pt2'' ''value'', Val (JObj [(''$in'', JArr [JStr ''a''])]))]\<rparr>,
          (''brands_tags'', True, JObj [(''$in'', JArr [JStr ''a''])]))"
proof -
  have L: "[JStr ''a''] \<noteq> []" by simp
  have i: "matchCondition example_env Product
             (''brands_tags'', JObj [(''$in'', JArr [JStr ''a''])]) =
     Inr (Exists False
            \<lparr>sub_entity = Entity ''ProductBrandsTag'',
             sub_where = [(Column ''pt2'' ''product_id'', Ref (Column ''pt'' ''id'')),
                          (Column ''pt2'' ''value'', Val (JObj [(''$in'', JArr [JStr ''a''])]))]\<rparr>,
          (''brands_tags'', False, JObj [(''$in'', JArr [JStr ''a''])]))"
    by code_simp
  from nin_is_negated_in [OF L, of example_env Product "''brands_tags''"] i
  show ?thesis by simp
qed

text \<open>
  C2, as stated, fails: a list that contains \<open>null\<close> after an object does not compile
  to an absence test, it throws.
\<close>

theorem absence_after_object_throws:
  "matchCondition example_env Product
     (''code'', JObj [(''$in'', JArr [JObj [(''a'', JNum 1)], JNull])]) =
   Inl (UnprocessableEntityException
         (UnableToProcess (JObj [(''$in'', JArr [JObj [(''a'', JNum 1)], JNull])])))"
  by code_simp

text \<open>
  C2, amended. For every \<open>$in\<close> or \<open>$nin\<close> clause whose tag resolves and whose list
  has a \<open>null\<close> or zero-length value (an empty array, and also an empty string) with
  only plain scalars before it, \<open>addMatches\<close> compiles an absence test whatever
  follows in the list. On a column of Product the \<open>where\<close> object gets the column
  with the value \<open>null\<close>, which is \<open>IS NULL\<close>, under \<open>EXISTS\<close> for \<open>$in\<close> and
  \<open>NOT EXISTS\<close> for \<open>$nin\<close>; on a tag table the sub-query keeps only the join to the
  outer product and the flag is flipped: \<open>NOT EXISTS\<close> for \<open>$in\<close>, \<open>EXISTS\<close> for
  \<open>$nin\<close>. \<open>getFilterSql\<close> does the same on a tag table.
\<close>

theorem absence_sentinel_compiles:
  assumes "getEntityAndColumn env t = Inr (ent, col)"
    and "op = ''$in'' \<or> op = ''$nin''"
    and "list_all plainScalar pre"
    and "isNullish s \<or> getProp s ''length'' = JNum 0"
  shows "matchCondition env parent (t, JObj [(op, JArr (pre @ s # post))]) =
     (if ent = Product then
        Inr (Exists (op = ''$nin'')
               \<lparr>sub_entity = Product,
                sub_where = assign [(Column ''pt2'' ''id'', Ref (Column ''pt'' (productId parent)))]
                              (Column ''pt2'' col) (Val JNull)\<rparr>,
             (t, op = ''$nin'', JNull))
      else
        Inr (Exists (op \<noteq> ''$nin'')
               \<lparr>sub_entity = ent,
                sub_where = [(Column ''pt2'' ''product_id'', Ref (Column ''pt'' (productId parent)))]\<rparr>,
             (t, op \<noteq> ''$nin'', JUndefined)))
   \<and> (ent \<noteq> Product \<longrightarrow>
        filterSqlClause env parent (t, JObj [(op, JArr (pre @ s # post))]) =
          Inr \<lparr>sql_not = (op \<noteq> ''$nin''), sql_entity = ent,
               sql_join = (Column ''pt2'' ''product_id'', Column ''pt'' (productId parent)),
               sql_equals = None\<rparr>)
   \<and> (ent = Product \<and> col \<noteq> ''id'' \<longrightarrow>
        holds db r (Exists (op = ''$nin'')
               \<lparr>sub_entity = Product,
                sub_where = assign [(Column ''pt2'' ''id'', Ref (Column ''pt'' (productId parent)))]
                              (Column ''pt2'' col) (Val JNull)\<rparr>) =
          ((op = ''$nin'') \<noteq>
             list_ex (\<lambda>r2. cell r2 ''id'' \<noteq> JNull \<and> cell r2 ''id'' = cell r (productId parent)
                         \<and> cell r2 col = JNull) (db Product)))"
proof -
  let ?v = "JObj [(op, JArr (pre @ s # post))]"
  have u: "unwrapped ?v = ?v" and ne: "\<not> truthy (getOptional ?v ''$ne'')"
    using assms(2) by (auto simp: unwrapped_def getOptional_def)
  have w: "whereOperand ent ?v =
      (if ent = Product then Inr (op = ''$nin'', JNull) else Inr (op \<noteq> ''$nin'', JUndefined))"
    using whereOperand_list [OF assms(2) u, of ent] ne
      scanValues_sentinel [OF assms(3,4), of ent post]
    by simp
  show ?thesis
    using matchCondition_resolved [OF assms(1), of parent ?v]
      filterSqlClause_resolved [OF assms(1), of parent ?v] w
    by (auto simp: productId_def)
qed

theorem absence_sentinel_compiles_witness:
  "getEntityAndColumn example_env ''creator'' = Inr (Product, ''creator'')
   \<and> list_all plainScalar [JStr ''a''] \<and> isNullish JNull
   \<and> matchCondition example_env Product
        (''creator'', JObj [(''$in'', JArr [JStr ''a'', JNull, JObj []])]) =
       Inr (Exists False
              \<lparr>sub_entity = Product,
               sub_where = [(Column ''pt2'' ''id'', Ref (Column ''pt'' ''id'')),
                            (Column ''pt2'' ''creator'', Val JNull)]\<rparr>,
            (''creator'', False, JNull))
   \<and> holds example_db example_product2
        (Exists False
              \<lparr>sub_entity = Product,
               sub_where = [(Column ''pt2'' ''id'', Ref (Column ''pt'' ''id'')),
                            (Column ''pt2'' ''creator'', Val JNull)]\<rparr>)
   \<and> getEntityAndColumn example_env ''brands_tags'' = Inr (Entity ''ProductBrandsTag'', ''value'')
   \<and> getProp (JArr []) ''length'' = JNum 0
   \<and> matchCondition example_env Product (''brands_tags'', JObj [(''$nin'', JArr [JArr []])]) =
       Inr (Exists False
              \<lparr>sub_entity = Entity ''ProductBrandsTag'',
               sub_where = [(Column ''pt2'' ''product_id'', Ref (Column ''pt'' ''id''))]\<rparr>,
            (''brands_tags'', False, JUndefined))
   \<and> filterSqlClause example_env ProductCountry
        (''brands_tags'', JObj [(''$nin'', JArr [JArr []])]) =
       Inr \<lparr>sql_not = False, sql_entity = Entity ''ProductBrandsTag'',
            sql_join = (Column ''pt2'' ''product_id'', Column ''pt'' ''product_id''),
            sql_equals = None\<rparr>"
proof -
  have r1: "getEntityAndColumn example_env ''creator'' = Inr (Product, ''creator'')"
    by code_simp
  have r2: "getEntityAndColumn example_env ''brands_tags'' =
      Inr (Entity ''ProductBrandsTag'', ''value'')"
    by code_simp
  have o1: "''$in'' = ''$in'' \<or> ''$in'' = ''$nin''" and o2: "''$nin'' = ''$in'' \<or> ''$nin'' = ''$nin''"
    by simp_all
  have p1: "list_all plainScalar [JStr ''a'']" by code_simp
  have p2: "list_all plainScalar []" by simp
  have s1: "isNullish JNull \<or> getProp JNull ''length'' = JNum 0" by simp
  have s2: "isNullish (JArr []) \<or> getProp (JArr []) ''length'' = JNum 0" by simp
  have a: "(let x = [(Column ''pt2'' ''id'', Ref (Column ''pt'' (productId Product)))]
            in assign x (Column ''pt2'' ''creator'') (Val JNull)) =
        [(Column ''pt2'' ''id'', Ref (Column ''pt'' ''id'')),
         (Column ''pt2'' ''creator'', Val JNull)]"
    by code_simp
  have h: "list_ex (\<lambda>r2. cell r2 ''id'' \<noteq> JNull
              \<and> cell r2 ''id'' = cell example_product2 (productId Product)
              \<and> cell r2 ''creator'' = JNull) (example_db Product)"
    by code_simp
  have e: "Entity ''ProductBrandsTag'' \<noteq> Product" "productId Product = ''id''"
    "productId ProductCountry = ''product_id''"
    by (simp_all add: productId_def ProductCountry_def)
  note t1 = absence_sentinel_compiles [OF r1 o1 p1 s1, of Product "[JObj []]" example_db
      example_product2]
  note t2 = absence_sentinel_compiles [OF r2 o2 p2 s2, of Product "[]"]
  note t3 = absence_sentinel_compiles [OF r2 o2 p2 s2, of ProductCountry "[]"]
  from t1 t2 t3 r1 r2 p1 a h e show ?thesis by simp
qed

text \<open>
  C5, as stated, fails: a list with an object in it, after a \<open>null\<close>, is no
  compilation failure; \<open>count\<close> runs the query and returns a number.
\<close>

theorem object_after_absence_counts:
  "count example_env example_db
     (JObj [(''code'', JObj [(''$in'', JArr [JNull, JObj [(''a'', JNum 1)]])])]) False = Inr 0"
  by code_simp

text \<open>
  C5, amended. Let the clauses before \<open>(t, v)\<close> compile and let \<open>(t, v)\<close> be one of:
  an unknown tag; a collection-valued tag that is not among the loaded tags; a value
  that, once a truthy \<open>$ne\<close> is taken off, is an array or an object other than a
  single-key \<open>$in\<close> or \<open>$nin\<close>; an empty \<open>$in\<close> or \<open>$nin\<close> list; a list with an
  object or non-empty array that only plain scalars precede. Then the clause throws
  UnprocessableEntityException whatever the outer entity, \<open>count\<close> and \<open>select\<close>
  throw that exception on every filter that normalises to these clauses, on every
  database, and so does \<open>aggregate\<close> (with that or the exception of its own group tag)
  on every pipeline whose stages are read without a TypeError. Nothing is returned
  beside the exception.
\<close>

theorem compilation_failures_abort:
  assumes "(t \<noteq> [] \<and> t \<notin> set (MAPPED_FIELDS env) \<and> map_of (MAPPED_TAGS env) t = None)
     \<or> (t \<noteq> [] \<and> t \<notin> set (MAPPED_FIELDS env) \<and> map_of (MAPPED_TAGS env) t = Some ent
          \<and> t \<notin> set (loadedTags env))
     \<or> (getEntityAndColumn env t = Inr (ent, col) \<and>
          ((isObject (unwrapped v)
             \<and> (\<forall>op x. unwrapped v = JObj [(op, x)] \<longrightarrow> op \<noteq> ''$in'' \<and> op \<noteq> ''$nin''))
           \<or> ((op = ''$in'' \<or> op = ''$nin'') \<and> unwrapped v = JObj [(op, JArr [])])
           \<or> ((op = ''$in'' \<or> op = ''$nin'') \<and> unwrapped v = JObj [(op, JArr (pre @ x # post))]
                \<and> list_all plainScalar pre \<and> isObject x \<and> getProp x ''length'' \<noteq> JNum 0)))"
    and "\<forall>c \<in> set ok. \<exists>r. matchCondition env Product c = Inr r"
  shows "\<exists>m.
      (\<forall>parent. matchCondition env parent (t, v) = Inl (UnprocessableEntityException m))
    \<and> (\<forall>body db obsolete. parseFilter body = Inr (ok @ (t, v) # rest) \<longrightarrow>
          count env db body obsolete = Inl (UnprocessableEntityException m)
        \<and> select env db body = Inl (UnprocessableEntityException m))
    \<and> (\<forall>body db obsolete match grp cnt limit skip tag.
          stageValue body ''$match'' = Inr match \<and> stageValue body ''$group'' = Inr grp
        \<and> someStage body ''$count'' = Inr cnt \<and> stageValue body ''$limit'' = Inr limit
        \<and> stageValue body ''$skip'' = Inr skip \<and> groupTag grp = Inr tag
        \<and> parseFilter match = Inr (ok @ (t, v) # rest) \<longrightarrow>
          (\<exists>m'. aggregate env db body obsolete = Inl (UnprocessableEntityException m')))"
proof -
  from clause_failure [OF assms(1)] obtain m where
    m: "\<And>parent. matchCondition env parent (t, v) = Inl (UnprocessableEntityException m)"
    by blast
  have am: "addMatches env (ok @ (t, v) # rest) q parent = Inl (UnprocessableEntityException m)"
    for q parent
  proof (rule addMatches_first_failure)
    show "\<forall>c \<in> set ok. \<exists>r. matchCondition env parent c = Inr r"
      using assms(2) matchCondition_parent(2) by blast
    show "matchCondition env parent (t, v) = Inl (UnprocessableEntityException m)" by (rule m)
  qed
  have cs: "count env db body obsolete = Inl (UnprocessableEntityException m)
        \<and> select env db body = Inl (UnprocessableEntityException m)"
    if p: "parseFilter body = Inr (ok @ (t, v) # rest)" for body db obsolete
  proof -
    from p parseFilter_nullish have "\<not> isNullish body" by fastforce
    with p show ?thesis
      by (simp add: count_def countQuery_def select_def selectQuery_def am)
  qed
  have ag: "\<exists>m'. aggregate env db body obsolete = Inl (UnprocessableEntityException m')"
    if "stageValue body ''$match'' = Inr match" "stageValue body ''$group'' = Inr grp"
       "someStage body ''$count'' = Inr cnt" "stageValue body ''$limit'' = Inr limit"
       "stageValue body ''$skip'' = Inr skip" "groupTag grp = Inr tag"
       "parseFilter match = Inr (ok @ (t, v) # rest)"
    for body db obsolete match grp cnt limit skip tag
  proof (cases "getEntityAndColumn env tag")
    case (Inl e)
    with getEntityAndColumn_error obtain m' where "e = UnprocessableEntityException m'" by blast
    with Inl that show ?thesis by (simp add: aggregate_def aggregateStatement_def)
  next
    case (Inr ec)
    obtain entity column where "ec = (entity, column)" by (cases ec)
    with Inr that show ?thesis by (simp add: aggregate_def aggregateStatement_def am)
  qed
  have c1: "\<forall>parent. matchCondition env parent (t, v) = Inl (UnprocessableEntityException m)"
    using m by blast
  have c2: "\<forall>body db obsolete. parseFilter body = Inr (ok @ (t, v) # rest) \<longrightarrow>
          count env db body obsolete = Inl (UnprocessableEntityException m)
        \<and> select env db body = Inl (UnprocessableEntityException m)"
    using cs by blast
  have c3: "\<forall>body db obsolete match grp cnt limit skip tag.
          stageValue body ''$match'' = Inr match \<and> stageValue body ''$group'' = Inr grp
        \<and> someStage body ''$count'' = Inr cnt \<and> stageValue body ''$limit'' = Inr limit
        \<and> stageValue body ''$skip'' = Inr skip \<and> groupTag grp = Inr tag
        \<and> parseFilter match = Inr (ok @ (t, v) # rest) \<longrightarrow>
          (\<exists>m'. aggregate env db body obsolete = Inl (UnprocessableEntityException m'))"
    using ag by blast
  from c1 c2 c3 show ?thesis by blast
qed

theorem compilation_failures_abort_witness:
  "count example_env example_db example_filter False =
     Inl (UnprocessableEntityException (UnableToProcess (JObj [(''$in'', JArr [])])))
   \<and> select example_env example_db example_filter =
     Inl (UnprocessableEntityException (UnableToProcess (JObj [(''$in'', JArr [])])))
   \<and> (\<exists>m. aggregate example_env example_db (example_pipeline example_filter []) False =
     Inl (UnprocessableEntityException m))"
proof -
  let ?v = "JObj [(''$in'', JArr [])]"
  have r: "getEntityAndColumn example_env ''code'' = Inr (Product, ''code'')" by code_simp
  have u: "unwrapped ?v = JObj [(''$in'', JArr [])]" by code_simp
  have bad: "(''code'' \<noteq> [] \<and> ''code'' \<notin> set (MAPPED_FIELDS example_env)
        \<and> map_of (MAPPED_TAGS example_env) ''code'' = None)
     \<or> (''code'' \<noteq> [] \<and> ''code'' \<notin> set (MAPPED_FIELDS example_env)
          \<and> map_of (MAPPED_TAGS example_env) ''code'' = Some Product
          \<and> ''code'' \<notin> set (loadedTags example_env))
     \<or> (getEntityAndColumn example_env ''code'' = Inr (Product, ''code'') \<and>
          ((isObject (unwrapped ?v)
             \<and> (\<forall>op x. unwrapped ?v = JObj [(op, x)] \<longrightarrow> op \<noteq> ''$in'' \<and> op \<noteq> ''$nin''))
           \<or> ((''$in'' = ''$in'' \<or> ''$in'' = ''$nin'') \<and> unwrapped ?v = JObj [(''$in'', JArr [])])
           \<or> ((''$in'' = ''$in'' \<or> ''$in'' = ''$nin'')
                \<and> unwrapped ?v = JObj [(''$in'', JArr ([] @ JNull # []))]
                \<and> list_all plainScalar [] \<and> isObject JNull
                \<and> getProp JNull ''length'' \<noteq> JNum 0)))"
    using r u by simp
  have c: "matchCondition example_env Product (''brands_tags'', JStr ''acme'') =
      Inr (Exists False
            \<lparr>sub_entity = Entity ''ProductBrandsTag'',
             sub_where = [(Column ''pt2'' ''product_id'', Ref (Column ''pt'' ''id'')),
                          (Column ''pt2'' ''value'', Val (JStr ''acme''))]\<rparr>,
           (''brands_tags'', False, JStr ''acme''))"
    by code_simp
  have ok: "\<forall>c \<in> set [(''brands_tags'', JStr ''acme'')].
      \<exists>r. matchCondition example_env Product c = Inr r"
  proof -
    from c have "\<exists>r. matchCondition example_env Product (''brands_tags'', JStr ''acme'') = Inr r"
      by (rule exI)
    then show ?thesis by simp
  qed
  have p: "parseFilter example_filter = Inr ([(''brands_tags'', JStr ''acme'')] @ (''code'', ?v) # [])"
    by code_simp
  have f: "matchCondition example_env Product (''code'', ?v) =
      Inl (UnprocessableEntityException (UnableToProcess ?v))"
    by code_simp
  have s: "stageValue (example_pipeline example_filter []) ''$match'' = Inr example_filter
      \<and> stageValue (example_pipeline example_filter []) ''$group'' =
          Inr (JObj [(''_id'', JStr ''$brands_tags'')])
      \<and> someStage (example_pipeline example_filter []) ''$count'' = Inr False
      \<and> stageValue (example_pipeline example_filter []) ''$limit'' = Inr JUndefined
      \<and> stageValue (example_pipeline example_filter []) ''$skip'' = Inr JUndefined
      \<and> groupTag (JObj [(''_id'', JStr ''$brands_tags'')]) = Inr ''brands_tags''"
    by code_simp
  from compilation_failures_abort [OF bad ok, of "[]"] obtain m where
    m1: "\<forall>parent. matchCondition example_env parent (''code'', ?v) =
           Inl (UnprocessableEntityException m)"
    and m2: "\<forall>body db obsolete. parseFilter body =
            Inr ([(''brands_tags'', JStr ''acme'')] @ (''code'', ?v) # []) \<longrightarrow>
          count example_env db body obsolete = Inl (UnprocessableEntityException m)
        \<and> select example_env db body = Inl (UnprocessableEntityException m)"
    and m3: "\<forall>body db obsolete match grp cnt limit skip tag.
          stageValue body ''$match'' = Inr match \<and> stageValue body ''$group'' = Inr grp
        \<and> someStage body ''$count'' = Inr cnt \<and> stageValue body ''$limit'' = Inr limit
        \<and> stageValue body ''$skip'' = Inr skip \<and> groupTag grp = Inr tag
        \<and> parseFilter match = Inr ([(''brands_tags'', JStr ''acme'')] @ (''code'', ?v) # []) \<longrightarrow>
          (\<exists>m'. aggregate example_env db body obsolete = Inl (UnprocessableEntityException m'))"
    by blast
  from m1 f have m: "m = UnableToProcess ?v" by simp
  from m2 p m have cs: "count example_env example_db example_filter False =
        Inl (UnprocessableEntityException (UnableToProcess ?v))
      \<and> select example_env example_db example_filter =
        Inl (UnprocessableEntityException (UnableToProcess ?v))"
    by blast
  from m3 s p have "\<exists>m'. aggregate example_env example_db (example_pipeline example_filter []) False
      = Inl (UnprocessableEntityException m')"
    by blast
  with cs show ?thesis by blast
qed

text \<open>
  C9. A pipeline without a group stage (no stage with a truthy \<open>$group\<close>, or a body
  that is no array) makes \<open>aggregate\<close> fail with a TypeError, on every schema, database
  and flag: \<open>group\<close> is \<open>undefined\<close> and \<open>group['_id']\<close> is read at line 42,
  before \<open>getEntityAndColumn\<close>, before the builder exists and before
  \<open>qb.execute()\<close>. It is never the UnprocessableEntityException of the client-input
  path.
\<close>

theorem aggregate_requires_group:
  assumes "\<forall>stages. body = JArr stages \<longrightarrow>
             (\<forall>s \<in> set stages. \<not> truthy (getOptional s ''$group''))"
  shows "aggregateStatement env body obsolete = Inl TypeError
       \<and> aggregate env db body obsolete = Inl TypeError"
proof -
  have g: "groupTag JUndefined = Inl TypeError" by (simp add: groupTag_def getMember_def)
  have "aggregateStatement env body obsolete = Inl TypeError"
  proof (cases "stageValue body ''$match''")
    case (Inl e)
    with stageValue_error show ?thesis by (fastforce simp: aggregateStatement_def)
  next
    case m: (Inr match)
    show ?thesis
    proof (cases "stageValue body ''$group''")
      case (Inl e)
      with stageValue_error [OF Inl] m show ?thesis by (simp add: aggregateStatement_def)
    next
      case (Inr grp)
      from stageValue_absent [OF assms Inr] have grp: "grp = JUndefined" .
      show ?thesis
      proof (cases "someStage body ''$count''")
        case (Inl e)
        with someStage_error [OF Inl] m Inr show ?thesis by (simp add: aggregateStatement_def)
      next
        case c: (Inr cnt)
        show ?thesis
        proof (cases "stageValue body ''$limit''")
          case (Inl e)
          with stageValue_error [OF Inl] m Inr c show ?thesis
            by (simp add: aggregateStatement_def)
        next
          case l: (Inr limit)
          show ?thesis
          proof (cases "stageValue body ''$skip''")
            case (Inl e)
            with stageValue_error [OF Inl] m Inr c l show ?thesis
              by (simp add: aggregateStatement_def)
          next
            case s: (Inr skip)
            with m Inr c l grp g show ?thesis by (simp add: aggregateStatement_def)
          qed
        qed
      qed
    qed
  qed
  then show ?thesis by (simp add: aggregate_def)
qed

theorem aggregate_requires_group_witness:
  "aggregateStatement example_env (JArr [JObj [(''$match'', JObj [])]]) False = Inl TypeError
   \<and> aggregate example_env example_db (JArr [JObj [(''$match'', JObj [])]]) False = Inl TypeError
   \<and> \<not> truthy (getOptional (JObj [(''$match'', JObj [])]) ''$group'')"
proof -
  have h: "\<forall>stages. JArr [JObj [(''$match'', JObj [])]] = JArr stages \<longrightarrow>
             (\<forall>s \<in> set stages. \<not> truthy (getOptional s ''$group''))"
    by (simp add: getOptional_def)
  from aggregate_requires_group [OF h, of example_env False example_db] show ?thesis
    by (simp add: getOptional_def)
qed

text \<open>
  C10. \<open>select\<close> puts no condition on the obsolete flag: its conditions are the
  \<open>EXISTS\<close> conditions of the clauses only. \<open>count\<close> and \<open>aggregate\<close> start their
  conditions with \<open>obsoleteWhere(obsolete)\<close>, which is \<open>not pt.obsolete\<close> unless the
  caller asks for obsolete products. So whenever \<open>select\<close> returns rows for a filter,
  \<open>count\<close> without the flag returns the number of those rows that are not obsolete;
  on the example data the empty filter selects two products and counts one.
\<close>

theorem select_ignores_obsolete:
  "(\<forall>q flag. selectQuery env body = Inr q \<longrightarrow> Raw (obsoleteWhere flag) \<notin> set (qb_where q))
   \<and> (\<forall>q. countQuery env body obsolete = Inr q \<longrightarrow>
         (\<exists>cs. qb_where q = Raw (obsoleteWhere obsolete) # cs))
   \<and> (\<forall>tag st. aggregateStatement env body obsolete = Inr (tag, st) \<longrightarrow>
         (\<exists>q column cs. (st = Grouped q column \<or> st = CountDistinct q column)
            \<and> qb_where q = Raw (obsoleteWhere obsolete) # cs))
   \<and> obsoleteWhere False = ''not pt.obsolete''
   \<and> (\<forall>rows. select env db body = Inr rows \<longrightarrow>
         count env db body False =
           Inr (length (filter (\<lambda>r. cell r ''obsolete'' = JBool False) rows)))
   \<and> select example_env example_db (JObj []) = Inr [example_product1, example_product2]
   \<and> count example_env example_db (JObj []) False = Inr 1"
proof (intro conjI)
  show "\<forall>q flag. selectQuery env body = Inr q \<longrightarrow> Raw (obsoleteWhere flag) \<notin> set (qb_where q)"
  proof (intro allI impI)
    fix q flag assume "selectQuery env body = Inr q"
    from selectQuery_where [OF this] obtain filters cls where
      m: "map (matchCondition env Product) filters = map Inr cls"
      and q: "q = (createQueryBuilder Product)\<lparr>qb_where := map fst cls\<rparr>"
      by blast
    show "Raw (obsoleteWhere flag) \<notin> set (qb_where q)"
    proof
      assume "Raw (obsoleteWhere flag) \<in> set (qb_where q)"
      with q obtain x where "x \<in> set cls" "fst x = Raw (obsoleteWhere flag)" by auto
      with map_Inr_conditions [OF m] show False by fastforce
    qed
  qed
next
  show "\<forall>q. countQuery env body obsolete = Inr q \<longrightarrow>
         (\<exists>cs. qb_where q = Raw (obsoleteWhere obsolete) # cs)"
    using countQuery_where by fastforce
next
  show "\<forall>tag st. aggregateStatement env body obsolete = Inr (tag, st) \<longrightarrow>
         (\<exists>q column cs. (st = Grouped q column \<or> st = CountDistinct q column)
            \<and> qb_where q = Raw (obsoleteWhere obsolete) # cs)"
  proof (intro allI impI)
    fix tag st assume "aggregateStatement env body obsolete = Inr (tag, st)"
    from aggregateStatement_where [OF this] obtain match grp cnt entity column filters cls q
      where w: "stageValue body ''$match'' = Inr match \<and> stageValue body ''$group'' = Inr grp
     \<and> someStage body ''$count'' = Inr cnt
     \<and> groupTag grp = Inr tag \<and> getEntityAndColumn env tag = Inr (entity, column)
     \<and> parseFilter match = Inr filters
     \<and> map (matchCondition env entity) filters = map Inr cls
     \<and> qb_entity q = entity
     \<and> qb_where q = Raw (obsoleteWhere obsolete) # map fst cls
     \<and> st = (if cnt then CountDistinct q column else Grouped q column)"
      by blast
    then have "qb_where q = Raw (obsoleteWhere obsolete) # map fst cls"
      and "st = (if cnt then CountDistinct q column else Grouped q column)"
      by simp_all
    then show "\<exists>q column cs. (st = Grouped q column \<or> st = CountDistinct q column)
            \<and> qb_where q = Raw (obsoleteWhere obsolete) # cs"
      by (cases cnt) auto
  qed
next
  show "obsoleteWhere False = ''not pt.obsolete''" by (simp add: obsoleteWhere_def)
next
  show "\<forall>rows. select env db body = Inr rows \<longrightarrow>
         count env db body False =
           Inr (length (filter (\<lambda>r. cell r ''obsolete'' = JBool False) rows))"
  proof (intro allI impI)
    fix rows assume s: "select env db body = Inr rows"
    then obtain q where sq: "selectQuery env body = Inr q" and rows: "rows = matchingRows db q"
      by (auto simp: select_def split: sum.splits)
    from selectQuery_where [OF sq] obtain filters cls where
      f: "parseFilter body = Inr filters"
      and m: "map (matchCondition env Product) filters = map Inr cls"
      and q: "q = (createQueryBuilder Product)\<lparr>qb_where := map fst cls\<rparr>"
      by blast
    from f parseFilter_nullish have nn: "\<not> isNullish body" by fastforce
    let ?qc = "(createQueryBuilder Product)
        \<lparr>qb_select := SelectCount, qb_where := [Raw (obsoleteWhere False)]\<rparr>"
    have cq: "countQuery env body False =
        Inr (?qc\<lparr>qb_where := qb_where ?qc @ map fst cls\<rparr>)"
      using nn f addMatches_complete [OF m, of ?qc] by (simp add: countQuery_def)
    have "matchingRows db (?qc\<lparr>qb_where := qb_where ?qc @ map fst cls\<rparr>) =
        filter (\<lambda>r. cell r ''obsolete'' = JBool False) (matchingRows db q)"
      using q by (simp add: matchingRows_def createQueryBuilder_def holds_not_obsolete
          conj_commute del: holds.simps)
    with cq rows show "count env db body False =
           Inr (length (filter (\<lambda>r. cell r ''obsolete'' = JBool False) rows))"
      by (simp add: count_def)
  qed
next
  show "select example_env example_db (JObj []) = Inr [example_product1, example_product2]"
    by code_simp
next
  show "count example_env example_db (JObj []) False = Inr 1" by code_simp
qed

theorem select_ignores_obsolete_witness:
  "selectQuery example_env (JObj []) = Inr (createQueryBuilder Product)
   \<and> Raw (obsoleteWhere False) \<notin> set (qb_where (createQueryBuilder Product))
   \<and> select example_env example_db (JObj []) = Inr [example_product1, example_product2]
   \<and> count example_env example_db (JObj []) False = Inr 1
   \<and> (1 :: nat) < length [example_product1, example_product2]"
proof -
  note t = select_ignores_obsolete [of example_env "JObj []" False example_db]
  have q: "selectQuery example_env (JObj []) = Inr (createQueryBuilder Product)"
    by code_simp
  from t q have n: "Raw (obsoleteWhere False) \<notin> set (qb_where (createQueryBuilder Product))"
    by blast
  have s: "select example_env example_db (JObj []) = Inr [example_product1, example_product2]"
    by code_simp
  from t s have c: "count example_env example_db (JObj []) False =
      Inr (length (filter (\<lambda>r. cell r ''obsolete'' = JBool False)
             [example_product1, example_product2]))"
    by blast
  have l: "length (filter (\<lambda>r. cell r ''obsolete'' = JBool False)
             [example_product1, example_product2]) = 1"
    by code_simp
  from q n s c l show ?thesis by simp
qed

text \<open>
  C7. When the pipeline has a count stage (a stage with a truthy \<open>$count\<close>) and
  \<open>aggregate\<close> returns, it returns one object with one property: the tag of the group
  stage (\<open>creator\<close> when the pipeline names \<open>users_tags\<close>) mapped to the number of
  distinct values of the resolved column among the rows of the resolved table that
  satisfy the obsolete condition and every clause of the match stage. It is not the
  list of facets with their counts.
\<close>

theorem aggregate_count_distinct_keys:
  assumes "someStage body ''$count'' = Inr True"
    and "aggregate env db body obsolete = Inr res"
  shows "\<exists>match grp tag entity column filters cls.
       stageValue body ''$match'' = Inr match \<and> stageValue body ''$group'' = Inr grp
     \<and> groupTag grp = Inr tag \<and> getEntityAndColumn env tag = Inr (entity, column)
     \<and> parseFilter match = Inr filters
     \<and> map (matchCondition env entity) filters = map Inr cls
     \<and> res = Response tag
         (card ((\<lambda>r. cell r column) `
            {r \<in> set (db entity). holds db r (Raw (obsoleteWhere obsolete))
               \<and> (\<forall>c \<in> set cls. holds db r (fst c))}))"
proof -
  from assms(2) obtain tag st where st: "aggregateStatement env body obsolete = Inr (tag, st)"
    by (auto simp: aggregate_def split: sum.splits)
  from aggregateStatement_where [OF st] assms(1) obtain match grp entity column filters cls q
    where s: "stageValue body ''$match'' = Inr match" "stageValue body ''$group'' = Inr grp"
      "groupTag grp = Inr tag" "getEntityAndColumn env tag = Inr (entity, column)"
      "parseFilter match = Inr filters"
      "map (matchCondition env entity) filters = map Inr cls"
    and q: "qb_entity q = entity" "qb_where q = Raw (obsoleteWhere obsolete) # map fst cls"
    and stq: "st = CountDistinct q column"
    by auto
  have rows: "set (matchingRows db q) =
      {r \<in> set (db entity). holds db r (Raw (obsoleteWhere obsolete))
         \<and> (\<forall>c \<in> set cls. holds db r (fst c))}"
    using q by (auto simp: matchingRows_def list_all_iff)
  have "executeCountDistinct db q column =
      card ((\<lambda>r. cell r column) ` set (matchingRows db q))"
    by (simp add: executeCountDistinct_def length_remdups_card_conv)
  with rows st stq assms(2) have "res = Response tag
         (card ((\<lambda>r. cell r column) `
            {r \<in> set (db entity). holds db r (Raw (obsoleteWhere obsolete))
               \<and> (\<forall>c \<in> set cls. holds db r (fst c))}))"
    by (simp add: aggregate_def)
  with s show ?thesis by blast
qed

theorem aggregate_count_distinct_keys_witness:
  "someStage (example_pipeline (JObj []) [JObj [(''$count'', JNum 1)]]) ''$count'' = Inr True
   \<and> aggregate example_env example_db
         (example_pipeline (JObj []) [JObj [(''$count'', JNum 1)]]) False =
       Inr (Response ''brands_tags'' 2)
   \<and> aggregate example_env example_db (example_pipeline (JObj []) []) False =
       Inr (Facets [(JStr ''acme'', 1), (JStr ''zeta'', 1)])"
proof -
  have h1: "someStage (example_pipeline (JObj []) [JObj [(''$count'', JNum 1)]]) ''$count''
      = Inr True"
    by code_simp
  have h2: "aggregate example_env example_db
         (example_pipeline (JObj []) [JObj [(''$count'', JNum 1)]]) False =
       Inr (Response ''brands_tags'' 2)"
    by code_simp
  have h3: "aggregate example_env example_db (example_pipeline (JObj []) []) False =
       Inr (Facets [(JStr ''acme'', 1), (JStr ''zeta'', 1)])"
    by code_simp
  from aggregate_count_distinct_keys [OF h1 h2] h1 h2 h3 show ?thesis by simp
qed

text \<open>
  C3, as stated, fails: when the mirror ranks three codes and the document store has
  no record of the second, the array that \<open>find\<close> returns has length three with a
  hole at index 1 (written \<open>null\<close> when the response is serialised), not the two
  records side by side. The cursor yields the third record first; it still lands
  last.
\<close>

theorem find_leaves_hole_for_missing_code:
  "find_query example_env example_stores example_find False =
     Inr [Some (example_doc ''001''), None, Some (example_doc ''003'')]"
  by code_simp

text \<open>
  C3, amended. Let the ranked codes be distinct and let every record of the cursor
  carry one of them in its \<open>code\<close> field, each code at most once. Then \<open>find\<close>
  returns an array that holds at every index below its length the record of the code
  of that rank, or a hole when the document store returned no record of that code; it
  is no longer than the list of codes, no code beyond its end has a record, and its
  last slot is a record. So the records stand in rank order, a missing code raises no
  error, and it leaves a hole unless no later code was fetched.
\<close>

theorem find_places_records_by_rank:
  assumes "findStatement env st body obsolete = Inr statement"
    and "codes = ranked_codes st statement"
    and "docs = cursor_docs st codes (getProp body ''projection'')"
    and "distinct codes"
    and "\<forall>d \<in> set docs. truthy d \<and> (\<exists>c \<in> set codes. getProp d ''code'' = JStr c)"
    and "distinct (map (\<lambda>d. getProp d ''code'') docs)"
  shows "\<exists>res. find_query env st body obsolete = Inr res \<and> byRank codes docs res"
proof -
  have "byRank codes [] []" by (simp add: byRank_def recordOf_def)
  with collect_byRank [OF assms(4), of docs "[]" "[]"] assms(5,6)
  have "byRank codes docs (collect codes docs [])" by simp
  with assms(1,2,3) show ?thesis by (simp add: find_query_def Let_def)
qed

theorem find_places_records_by_rank_witness:
  "findStatement example_env example_stores example_find False =
     Inr \<lparr>fs_countryId = JNum 1, fs_obsolete = False, fs_where = [], fs_limit = None,
          fs_offset = None\<rparr>
   \<and> distinct [''001'', ''002'', ''003'']
   \<and> distinct (map (\<lambda>d. getProp d ''code'') [example_doc ''003'', example_doc ''001''])
   \<and> byRank [''001'', ''002'', ''003''] [example_doc ''003'', example_doc ''001'']
        [Some (example_doc ''001''), None, Some (example_doc ''003'')]"
proof -
  let ?s = "\<lparr>fs_countryId = JNum 1, fs_obsolete = False, fs_where = [], fs_limit = None,
          fs_offset = None\<rparr>"
  have h1: "findStatement example_env example_stores example_find False = Inr ?s"
    by code_simp
  have h2: "[''001'', ''002'', ''003''] = ranked_codes example_stores ?s"
    by (simp add: example_stores_def)
  have h3: "[example_doc ''003'', example_doc ''001''] =
      cursor_docs example_stores [''001'', ''002'', ''003''] (getProp example_find ''projection'')"
    by (simp add: example_stores_def)
  have h4: "distinct [''001'', ''002'', ''003'']" by simp
  have h5: "\<forall>d \<in> set [example_doc ''003'', example_doc ''001''].
      truthy d \<and> (\<exists>c \<in> set [''001'', ''002'', ''003'']. getProp d ''code'' = JStr c)"
    by (simp add: example_doc_def)
  have h6: "distinct (map (\<lambda>d. getProp d ''code'') [example_doc ''003'', example_doc ''001''])"
    by (simp add: example_doc_def)
  have r: "find_query example_env example_stores example_find False =
     Inr [Some (example_doc ''001''), None, Some (example_doc ''003'')]"
    by code_simp
  from find_places_records_by_rank [OF h1 h2 h3 h4 h5 h6] r h1 h4 h6 show ?thesis by auto
qed

text \<open>
  C1. Start from any state of the mirror that meets the uniqueness constraints of the
  schema, and deliver any batches, in any order and with any repetitions. If some
  delivered event carries product code \<open>c\<close> and revision \<open>r\<close>, then afterwards the
  constraints still hold and there is exactly one ProductUpdate row for the product of
  \<open>c\<close> and \<open>r\<close>, however many events carried that pair; and ingesting that event
  once more changes neither the ProductUpdate table nor any update-count of the view.
\<close>

theorem same_revision_counts_once:
  assumes "constraints s"
    and "(now, suppress, es) \<in> set batches" and "e \<in> set es"
    and "msg_rev (ev_message e) = Some r"
  shows "constraints (deliver s batches)
     \<and> length (updatesOf (deliver s batches) (msg_code (ev_message e)) r) = 1
     \<and> (\<forall>now' suppress'.
           product_updates (fst (ingestEvent now' suppress' (deliver s batches) e)) =
             product_updates (deliver s batches))
     \<and> (\<forall>now' suppress' owner update_type.
           update_count (fst (ingestEvent now' suppress' (deliver s batches) e)) owner update_type =
             update_count (deliver s batches) owner update_type)"
proof -
  have c: "constraints (deliver s batches)" by (rule deliver_constraints [OF assms(1)])
  have r: "recorded (deliver s batches) (msg_code (ev_message e)) r"
    by (rule deliver_records [OF assms(2,3,4)])
  from c recorded_once [OF c r] reingest_noop [OF r assms(4)] show ?thesis by blast
qed

theorem same_revision_counts_once_witness:
  "constraints example_mirror
   \<and> (1700000000000, True, example_batch) \<in> set [(1700000000000, True, example_batch)]
   \<and> example_event ''0002'' 2 \<in> set example_batch
   \<and> msg_rev (ev_message (example_event ''0002'' 2)) = Some 2
   \<and> length (updatesOf (deliver example_mirror [(1700000000000, True, example_batch)])
               ''0001'' 2) = 1
   \<and> length (product_updates (deliver example_mirror [(1700000000000, True, example_batch)]))
       = 3
   \<and> update_count (deliver example_mirror [(1700000000000, True, example_batch)])
        (Some ''owner1'') (Some ''created'') = 3"
proof -
  have h1: "constraints example_mirror" by code_simp
  have h2: "(1700000000000, True, example_batch) \<in> set [(1700000000000, True, example_batch)]"
    by simp
  have h3: "example_event ''0002'' 2 \<in> set example_batch"
    by (simp add: example_batch_def)
  have h4: "msg_rev (ev_message (example_event ''0002'' 2)) = Some 2"
    by (simp add: example_event_def)
  have c: "msg_code (ev_message (example_event ''0002'' 2)) = ''0001''"
    by (simp add: example_event_def)
  have n: "length (product_updates (deliver example_mirror [(1700000000000, True, example_batch)]))
       = 3"
    by code_simp
  have u: "update_count (deliver example_mirror [(1700000000000, True, example_batch)])
        (Some ''owner1'') (Some ''created'') = 3"
    by code_simp
  from same_revision_counts_once [OF h1 h2 h3 h4] c h1 h2 h3 h4 n u show ?thesis by simp
qed

end
